theory Spec2Isabelle
  imports Main "HOL-Library.Word"
begin

unbundle bit_operations_syntax

section \<open>Bytes and errors\<close>

text \<open>
  A Python \<^verbatim>\<open>bytes\<close> value is a list of 8-bit words. Every exception the code can raise
  is a value of \<open>error\<close>; a function that can raise returns \<open>error + 'a\<close> with the
  exception on the left. \<open>AssertionError\<close> carries the message of the failed
  \<^verbatim>\<open>assert\<close> (empty when the statement has none).
\<close>

type_synonym byte = "8 word"
type_synonym bytes = "byte list"
type_synonym state = "byte list list"

datatype error =
    EncryptDecryptWithoutKey
  | EncryptDecryptEmptyMessage
  | InvalidKeyLength
  | UnsupportedMessageType
  | IncorrectKey
  | AssertionError string
  | IndexError
  | ZeroDivisionError
  | UnicodeEncodeError
  | UnicodeDecodeError
  | AttributeError
  | TypeError
  | LibraryError
  | PaddingError

section \<open>The module \<^verbatim>\<open>encryption_logic\<close>\<close>

text \<open>Modelled from the spec: the module \<^verbatim>\<open>encryption_logic\<close> is not among the sources.
  Its substitution table is the 256-entry byte bijection of the standardised cipher
  (section 4.1 of the specification).\<close>

definition s_box :: "byte list" where
  "s_box = [
    0x63, 0x7C, 0x77, 0x7B, 0xF2, 0x6B, 0x6F, 0xC5, 0x30, 0x01, 0x67, 0x2B, 0xFE, 0xD7, 0xAB, 0x76,
    0xCA, 0x82, 0xC9, 0x7D, 0xFA, 0x59, 0x47, 0xF0, 0xAD, 0xD4, 0xA2, 0xAF, 0x9C, 0xA4, 0x72, 0xC0,
    0xB7, 0xFD, 0x93, 0x26, 0x36, 0x3F, 0xF7, 0xCC, 0x34, 0xA5, 0xE5, 0xF1, 0x71, 0xD8, 0x31, 0x15,
    0x04, 0xC7, 0x23, 0xC3, 0x18, 0x96, 0x05, 0x9A, 0x07, 0x12, 0x80, 0xE2, 0xEB, 0x27, 0xB2, 0x75,
    0x09, 0x83, 0x2C, 0x1A, 0x1B, 0x6E, 0x5A, 0xA0, 0x52, 0x3B, 0xD6, 0xB3, 0x29, 0xE3, 0x2F, 0x84,
    0x53, 0xD1, 0x00, 0xED, 0x20, 0xFC, 0xB1, 0x5B, 0x6A, 0xCB, 0xBE, 0x39, 0x4A, 0x4C, 0x58, 0xCF,
    0xD0, 0xEF, 0xAA, 0xFB, 0x43, 0x4D, 0x33, 0x85, 0x45, 0xF9, 0x02, 0x7F, 0x50, 0x3C, 0x9F, 0xA8,
    0x51, 0xA3, 0x40, 0x8F, 0x92, 0x9D, 0x38, 0xF5, 0xBC, 0xB6, 0xDA, 0x21, 0x10, 0xFF, 0xF3, 0xD2,
    0xCD, 0x0C, 0x13, 0xEC, 0x5F, 0x97, 0x44, 0x17, 0xC4, 0xA7, 0x7E, 0x3D, 0x64, 0x5D, 0x19, 0x73,
    0x60, 0x81, 0x4F, 0xDC, 0x22, 0x2A, 0x90, 0x88, 0x46, 0xEE, 0xB8, 0x14, 0xDE, 0x5E, 0x0B, 0xDB,
    0xE0, 0x32, 0x3A, 0x0A, 0x49, 0x06, 0x24, 0x5C, 0xC2, 0xD3, 0xAC, 0x62, 0x91, 0x95, 0xE4, 0x79,
    0xE7, 0xC8, 0x37, 0x6D, 0x8D, 0xD5, 0x4E, 0xA9, 0x6C, 0x56, 0xF4, 0xEA, 0x65, 0x7A, 0xAE, 0x08,
    0xBA, 0x78, 0x25, 0x2E, 0x1C, 0xA6, 0xB4, 0xC6, 0xE8, 0xDD, 0x74, 0x1F, 0x4B, 0xBD, 0x8B, 0x8A,
    0x70, 0x3E, 0xB5, 0x66, 0x48, 0x03, 0xF6, 0x0E, 0x61, 0x35, 0x57, 0xB9, 0x86, 0xC1, 0x1D, 0x9E,
    0xE1, 0xF8, 0x98, 0x11, 0x69, 0xD9, 0x8E, 0x94, 0x9B, 0x1E, 0x87, 0xE9, 0xCE, 0x55, 0x28, 0xDF,
    0x8C, 0xA1, 0x89, 0x0D, 0xBF, 0xE6, 0x42, 0x68, 0x41, 0x99, 0x2D, 0x0F, 0xB0, 0x54, 0xBB, 0x16]"

text \<open>Modelled from the spec: the inverse substitution table of \<^verbatim>\<open>encryption_logic\<close>.\<close>

definition inv_s_box :: "byte list" where
  "inv_s_box = [
    0x52, 0x09, 0x6A, 0xD5, 0x30, 0x36, 0xA5, 0x38, 0xBF, 0x40, 0xA3, 0x9E, 0x81, 0xF3, 0xD7, 0xFB,
    0x7C, 0xE3, 0x39, 0x82, 0x9B, 0x2F, 0xFF, 0x87, 0x34, 0x8E, 0x43, 0x44, 0xC4, 0xDE, 0xE9, 0xCB,
    0x54, 0x7B, 0x94, 0x32, 0xA6, 0xC2, 0x23, 0x3D, 0xEE, 0x4C, 0x95, 0x0B, 0x42, 0xFA, 0xC3, 0x4E,
    0x08, 0x2E, 0xA1, 0x66, 0x28, 0xD9, 0x24, 0xB2, 0x76, 0x5B, 0xA2, 0x49, 0x6D, 0x8B, 0xD1, 0x25,
    0x72, 0xF8, 0xF6, 0x64, 0x86, 0x68, 0x98, 0x16, 0xD4, 0xA4, 0x5C, 0xCC, 0x5D, 0x65, 0xB6, 0x92,
    0x6C, 0x70, 0x48, 0x50, 0xFD, 0xED, 0xB9, 0xDA, 0x5E, 0x15, 0x46, 0x57, 0xA7, 0x8D, 0x9D, 0x84,
    0x90, 0xD8, 0xAB, 0x00, 0x8C, 0xBC, 0xD3, 0x0A, 0xF7, 0xE4, 0x58, 0x05, 0xB8, 0xB3, 0x45, 0x06,
    0xD0, 0x2C, 0x1E, 0x8F, 0xCA, 0x3F, 0x0F, 0x02, 0xC1, 0xAF, 0xBD, 0x03, 0x01, 0x13, 0x8A, 0x6B,
    0x3A, 0x91, 0x11, 0x41, 0x4F, 0x67, 0xDC, 0xEA, 0x97, 0xF2, 0xCF, 0xCE, 0xF0, 0xB4, 0xE6, 0x73,
    0x96, 0xAC, 0x74, 0x22, 0xE7, 0xAD, 0x35, 0x85, 0xE2, 0xF9, 0x37, 0xE8, 0x1C, 0x75, 0xDF, 0x6E,
    0x47, 0xF1, 0x1A, 0x71, 0x1D, 0x29, 0xC5, 0x89, 0x6F, 0xB7, 0x62, 0x0E, 0xAA, 0x18, 0xBE, 0x1B,
    0xFC, 0x56, 0x3E, 0x4B, 0xC6, 0xD2, 0x79, 0x20, 0x9A, 0xDB, 0xC0, 0xFE, 0x78, 0xCD, 0x5A, 0xF4,
    0x1F, 0xDD, 0xA8, 0x33, 0x88, 0x07, 0xC7, 0x31, 0xB1, 0x12, 0x10, 0x59, 0x27, 0x80, 0xEC, 0x5F,
    0x60, 0x51, 0x7F, 0xA9, 0x19, 0xB5, 0x4A, 0x0D, 0x2D, 0xE5, 0x7A, 0x9F, 0x93, 0xC9, 0x9C, 0xEF,
    0xA0, 0xE0, 0x3B, 0x4D, 0xAE, 0x2A, 0xF5, 0xB0, 0xC8, 0xEB, 0xBB, 0x3C, 0x83, 0x53, 0x99, 0x61,
    0x17, 0x2B, 0x04, 0x7E, 0xBA, 0x77, 0xD6, 0x26, 0xE1, 0x69, 0x14, 0x63, 0x55, 0x21, 0x0C, 0x7D]"

text \<open>Modelled from the spec: the round constants of \<^verbatim>\<open>encryption_logic\<close>, read by the
  key schedule from index 1 on; entry \<open>i\<close> is \<open>x^(i-1)\<close> in GF(2^8) and entry 0 is unused.\<close>

definition r_con :: "byte list" where
  "r_con = [
    0x00, 0x01, 0x02, 0x04, 0x08, 0x10, 0x20, 0x40, 0x80, 0x1B, 0x36, 0x6C, 0xD8, 0xAB, 0x4D, 0x9A,
    0x2F, 0x5E, 0xBC, 0x63, 0xC6, 0x97, 0x35, 0x6A, 0xD4, 0xB3, 0x7D, 0xFA, 0xEF, 0xC5, 0x91, 0x39]"


text \<open>Modelled from the spec: \<^verbatim>\<open>xor_bytes\<close> of \<^verbatim>\<open>encryption_logic\<close>, the byte-wise XOR of two
  byte sequences, pairing them position by position.\<close>

definition xor_bytes :: "bytes \<Rightarrow> bytes \<Rightarrow> bytes" where
  "xor_bytes a b = map2 (XOR) a b"

text \<open>Modelled from the spec: \<^verbatim>\<open>bytes2matrix\<close> and \<^verbatim>\<open>matrix2bytes\<close> of \<^verbatim>\<open>encryption_logic\<close>.
  A byte sequence is read as consecutive 4-byte words (section 4.2); a matrix is the list of
  its four words, each word one column of the state.\<close>

definition bytes2matrix :: "bytes \<Rightarrow> state" where
  "bytes2matrix text = map (\<lambda>i. take 4 (drop (4 * i) text)) [0..<(length text + 3) div 4]"

definition matrix2bytes :: "state \<Rightarrow> bytes" where
  "matrix2bytes matrix = concat matrix"

text \<open>Modelled from the spec: the primitive operations of section 4.3, absent with
  \<^verbatim>\<open>encryption_logic\<close>. SubBytes replaces every byte through the substitution table (the
  inverse table for decryption).\<close>

definition sub_bytes :: "state \<Rightarrow> state" where
  "sub_bytes s = map (map (\<lambda>b. s_box ! unat b)) s"

definition inv_sub_bytes :: "state \<Rightarrow> state" where
  "inv_sub_bytes s = map (map (\<lambda>b. inv_s_box ! unat b)) s"

text \<open>Modelled from the spec: ShiftRows rotates row \<open>r\<close> of the matrix left by \<open>r\<close> positions,
  the inverse rotates it right by \<open>r\<close>. The state is a list of columns, so the byte of row
  \<open>r\<close> in column \<open>c\<close> is \<open>s ! c ! r\<close>.\<close>

definition shift_rows :: "state \<Rightarrow> state" where
  "shift_rows s = map (\<lambda>c. map (\<lambda>r. s ! ((c + r) mod 4) ! r) [0..<4]) [0..<4]"

definition inv_shift_rows :: "state \<Rightarrow> state" where
  "inv_shift_rows s = map (\<lambda>c. map (\<lambda>r. s ! ((c + 4 - r) mod 4) ! r) [0..<4]) [0..<4]"

text \<open>Modelled from the spec: AddRoundKey XORs state and round-key matrix byte-wise.\<close>

definition add_round_key :: "state \<Rightarrow> state \<Rightarrow> state" where
  "add_round_key s k = map2 xor_bytes s k"

text \<open>Modelled from the spec: multiplication in GF(2^8) with the reduction polynomial
  \<open>x^8 + x^4 + x^3 + x + 1\<close>. \<open>xtime\<close> multiplies by \<open>x\<close>; \<open>gf_mul a b\<close> adds \<open>x^i * b\<close>
  for every bit \<open>i\<close> set in \<open>a\<close>.\<close>

definition xtime :: "byte \<Rightarrow> byte" where
  "xtime a = (if a AND 0x80 \<noteq> 0 then push_bit 1 a XOR 0x1B else push_bit 1 a)"

fun gf_mul_bits :: "nat \<Rightarrow> byte \<Rightarrow> byte \<Rightarrow> byte" where
  "gf_mul_bits 0 a b = 0"
| "gf_mul_bits (Suc n) a b =
     (if a AND 1 \<noteq> 0 then b else 0) XOR gf_mul_bits n (drop_bit 1 a) (xtime b)"

definition gf_mul :: "byte \<Rightarrow> byte \<Rightarrow> byte" where
  "gf_mul a b = gf_mul_bits 8 a b"

text \<open>Modelled from the spec: MixColumns and InvMixColumns multiply each column by a fixed
  4x4 matrix over GF(2^8), the matrices of the standardised cipher.\<close>

definition gf_mat_vec :: "byte list list \<Rightarrow> bytes \<Rightarrow> bytes" where
  "gf_mat_vec m col = map (\<lambda>row. foldr (XOR) (map2 gf_mul row col) 0) m"

definition mix_matrix :: "byte list list" where
  "mix_matrix = [[2, 3, 1, 1], [1, 2, 3, 1], [1, 1, 2, 3], [3, 1, 1, 2]]"

definition inv_mix_matrix :: "byte list list" where
  "inv_mix_matrix = [[14, 11, 13, 9], [9, 14, 11, 13], [13, 9, 14, 11], [11, 13, 9, 14]]"

definition mix_columns :: "state \<Rightarrow> state" where
  "mix_columns s = map (gf_mat_vec mix_matrix) s"

definition inv_mix_columns :: "state \<Rightarrow> state" where
  "inv_mix_columns s = map (gf_mat_vec inv_mix_matrix) s"

text \<open>Modelled from the spec: \<^verbatim>\<open>pad\<close>, \<^verbatim>\<open>unpad\<close> and \<^verbatim>\<open>split_blocks\<close> of
  \<^verbatim>\<open>encryption_logic\<close> (section 4.4). Padding appends \<open>16 - (len mod 16)\<close> bytes of that
  value, a whole block when the length is a multiple of 16. Unpadding reads the last byte
  \<open>p\<close>, requires \<open>1 \<le> p \<le> 16\<close> and the last \<open>p\<close> bytes to equal \<open>p\<close>, and strips them;
  anything else is the padding error.\<close>

definition pad :: "bytes \<Rightarrow> bytes" where
  "pad plaintext =
     (let padding_len = 16 - length plaintext mod 16
      in plaintext @ replicate padding_len (of_nat padding_len))"

definition unpad :: "bytes \<Rightarrow> error + bytes" where
  "unpad plaintext =
     (if plaintext = [] then Inl PaddingError
      else let padding_len = unat (last plaintext) in
        if 1 \<le> padding_len \<and> padding_len \<le> 16 \<and> padding_len \<le> length plaintext
           \<and> (\<forall>p \<in> set (drop (length plaintext - padding_len) plaintext). unat p = padding_len)
        then Inr (take (length plaintext - padding_len) plaintext)
        else Inl PaddingError)"

definition split_blocks :: "bytes \<Rightarrow> bytes list" where
  "split_blocks message =
     map (\<lambda>i. take 16 (drop (16 * i) message)) [0..<(length message + 15) div 16]"

section \<open>The class \<^verbatim>\<open>AES\<close>\<close>

text \<open>
  An instance holds the round count and the round-key matrices computed by the
  constructor. \<^verbatim>\<open>rounds_by_key_size\<close> is the class dictionary.
\<close>

record aes =
  n_rounds :: nat
  key_matrices :: "state list"

definition rounds_by_key_size :: "nat \<rightharpoonup> nat" where
  "rounds_by_key_size = [16 \<mapsto> 10, 24 \<mapsto> 12, 32 \<mapsto> 14]"

text \<open>
  One pass through the body of the \<^verbatim>\<open>while\<close> loop of \<^verbatim>\<open>_expand_key\<close>: the word to append
  and the new value of the round-constant counter \<open>i\<close>. Reads that Python would refuse
  (\<^verbatim>\<open>key_columns[-1]\<close> of an empty list, \<^verbatim>\<open>pop(0)\<close> of an empty word, \<^verbatim>\<open>r_con[i]\<close> and
  \<^verbatim>\<open>key_columns[-iteration_size]\<close> out of range, a modulus of zero) are errors.
\<close>

definition schedule_core :: "bytes \<Rightarrow> nat \<Rightarrow> error + bytes" where
  "schedule_core word i =
     (case word of
        [] \<Rightarrow> Inl IndexError
      | b # bs \<Rightarrow>
          let word = map (\<lambda>b. s_box ! unat b) (bs @ [b])
          in if i < length r_con then Inr (word[0 := word ! 0 XOR r_con ! i])
             else Inl IndexError)"

definition expand_step :: "nat \<Rightarrow> nat \<Rightarrow> bytes list \<Rightarrow> nat \<Rightarrow> error + (bytes \<times> nat)" where
  "expand_step key_len iteration_size key_columns i =
     (if key_columns = [] then Inl IndexError
      else if iteration_size = 0 then Inl ZeroDivisionError
      else
        (case (if length key_columns mod iteration_size = 0
               then (case schedule_core (last key_columns) i of
                       Inl e \<Rightarrow> Inl e | Inr word \<Rightarrow> Inr (word, i + 1))
               else if key_len = 32 \<and> length key_columns mod iteration_size = 4
               then Inr (map (\<lambda>b. s_box ! unat b) (last key_columns), i)
               else Inr (last key_columns, i))
         of Inl e \<Rightarrow> Inl e
          | Inr (word, i') \<Rightarrow>
              if iteration_size \<le> length key_columns
              then Inr (xor_bytes word (key_columns ! (length key_columns - iteration_size)), i')
              else Inl IndexError))"

function expand_loop :: "nat \<Rightarrow> nat \<Rightarrow> nat \<Rightarrow> bytes list \<Rightarrow> nat \<Rightarrow> error + bytes list" where
  "expand_loop rounds key_len iteration_size key_columns i =
     (if length key_columns < (rounds + 1) * 4 then
        (case expand_step key_len iteration_size key_columns i of
           Inl e \<Rightarrow> Inl e
         | Inr (word, i') \<Rightarrow> expand_loop rounds key_len iteration_size (key_columns @ [word]) i')
      else Inr key_columns)"
  by pat_completeness auto
termination
  by (relation "measure (\<lambda>(rounds, key_len, iteration_size, key_columns, i).
        (rounds + 1) * 4 - length key_columns)") auto

definition expand_key :: "nat \<Rightarrow> bytes \<Rightarrow> error + state list" where
  "expand_key rounds master_key =
     (case expand_loop rounds (length master_key) (length master_key div 4)
             (bytes2matrix master_key) 1 of
        Inl e \<Rightarrow> Inl e
      | Inr key_columns \<Rightarrow>
          Inr (map (\<lambda>i. take 4 (drop (4 * i) key_columns)) [0..<length key_columns div 4]))"

definition AES_init :: "bytes \<Rightarrow> error + aes" where
  "AES_init master_key =
     (case rounds_by_key_size (length master_key) of
        None \<Rightarrow> Inl (AssertionError [])
      | Some rounds \<Rightarrow>
          (case expand_key rounds master_key of
             Inl e \<Rightarrow> Inl e
           | Inr ms \<Rightarrow> Inr \<lparr>n_rounds = rounds, key_matrices = ms\<rparr>))"

text \<open>
  The blocks: the state is threaded through the calls that mutate it in the source. The
  loop \<^verbatim>\<open>for i in range(1, n_rounds)\<close> runs over \<open>[1..<n_rounds]\<close>, the loop
  \<^verbatim>\<open>for i in range(n_rounds - 1, 0, -1)\<close> over the same list reversed. The constructor
  leaves \<open>n_rounds + 1\<close> round-key matrices, so that \<^verbatim>\<open>_key_matrices[i]\<close> is \<open>! i\<close> and
  \<^verbatim>\<open>_key_matrices[-1]\<close> is \<open>last\<close>.
\<close>

definition encrypt_round :: "state list \<Rightarrow> state \<Rightarrow> nat \<Rightarrow> state" where
  "encrypt_round ms plain_state i =
     add_round_key (mix_columns (shift_rows (sub_bytes plain_state))) (ms ! i)"

definition encrypt_block :: "aes \<Rightarrow> bytes \<Rightarrow> error + bytes" where
  "encrypt_block self plaintext =
     (if length plaintext \<noteq> 16 then Inl (AssertionError [])
      else
        let plain_state = bytes2matrix plaintext;
            plain_state = add_round_key plain_state (key_matrices self ! 0);
            plain_state = foldl (encrypt_round (key_matrices self)) plain_state
                            [1..<n_rounds self];
            plain_state = sub_bytes plain_state;
            plain_state = shift_rows plain_state;
            plain_state = add_round_key plain_state (last (key_matrices self))
        in Inr (matrix2bytes plain_state))"

definition decrypt_round :: "state list \<Rightarrow> state \<Rightarrow> nat \<Rightarrow> state" where
  "decrypt_round ms cipher_state i =
     inv_sub_bytes (inv_shift_rows (inv_mix_columns (add_round_key cipher_state (ms ! i))))"

definition decrypt_block :: "aes \<Rightarrow> bytes \<Rightarrow> error + bytes" where
  "decrypt_block self ciphertext =
     (if length ciphertext \<noteq> 16 then Inl (AssertionError [])
      else
        let cipher_state = bytes2matrix ciphertext;
            cipher_state = add_round_key cipher_state (last (key_matrices self));
            cipher_state = inv_shift_rows cipher_state;
            cipher_state = inv_sub_bytes cipher_state;
            cipher_state = foldl (decrypt_round (key_matrices self)) cipher_state
                             (rev [1..<n_rounds self]);
            cipher_state = add_round_key cipher_state (key_matrices self ! 0)
        in Inr (matrix2bytes cipher_state))"

text \<open>
  CBC mode. Each \<^verbatim>\<open>for\<close> loop over the blocks is a recursion over the block list that
  carries \<^verbatim>\<open>previous\<close>; a failed assertion of a block operation ends the loop.
\<close>

fun encrypt_blocks :: "aes \<Rightarrow> bytes \<Rightarrow> bytes list \<Rightarrow> error + bytes list" where
  "encrypt_blocks self previous [] = Inr []"
| "encrypt_blocks self previous (plaintext_block # rest) =
     (case encrypt_block self (xor_bytes plaintext_block previous) of
        Inl e \<Rightarrow> Inl e
      | Inr block \<Rightarrow>
          (case encrypt_blocks self block rest of
             Inl e \<Rightarrow> Inl e
           | Inr blocks \<Rightarrow> Inr (block # blocks)))"

definition encrypt_cbc :: "aes \<Rightarrow> bytes \<Rightarrow> bytes \<Rightarrow> error + bytes" where
  "encrypt_cbc self plaintext iv =
     (if length iv \<noteq> 16 then Inl (AssertionError [])
      else
        (case encrypt_blocks self iv (split_blocks (pad plaintext)) of
           Inl e \<Rightarrow> Inl e
         | Inr blocks \<Rightarrow> Inr (concat blocks)))"

fun decrypt_blocks :: "aes \<Rightarrow> bytes \<Rightarrow> bytes list \<Rightarrow> error + bytes list" where
  "decrypt_blocks self previous [] = Inr []"
| "decrypt_blocks self previous (ciphertext_block # rest) =
     (case decrypt_block self ciphertext_block of
        Inl e \<Rightarrow> Inl e
      | Inr plain \<Rightarrow>
          (case decrypt_blocks self ciphertext_block rest of
             Inl e \<Rightarrow> Inl e
           | Inr blocks \<Rightarrow> Inr (xor_bytes previous plain # blocks)))"

definition decrypt_cbc :: "aes \<Rightarrow> bytes \<Rightarrow> bytes \<Rightarrow> error + bytes" where
  "decrypt_cbc self ciphertext iv =
     (if length iv \<noteq> 16 then Inl (AssertionError [])
      else
        (case decrypt_blocks self iv (split_blocks ciphertext) of
           Inl e \<Rightarrow> Inl e
         | Inr blocks \<Rightarrow> unpad (concat blocks)))"

section \<open>Python values and the UTF-8 codec\<close>

text \<open>
  The arguments of \<^verbatim>\<open>encrypt\<close> and \<^verbatim>\<open>decrypt\<close> are \<^verbatim>\<open>None\<close>, text or bytes. A \<^verbatim>\<open>str\<close> is
  the list of its code points. \<open>py_len\<close> is \<^verbatim>\<open>len\<close> (code points of a \<^verbatim>\<open>str\<close>, bytes of a
  \<^verbatim>\<open>bytes\<close>); \<open>truthy\<close> is the truth value Python gives the object.
\<close>

datatype pyval = PyNone | PyStr "nat list" | PyBytes bytes

fun py_len :: "pyval \<Rightarrow> nat" where
  "py_len PyNone = 0"
| "py_len (PyStr cs) = length cs"
| "py_len (PyBytes bs) = length bs"

fun truthy :: "pyval \<Rightarrow> bool" where
  "truthy PyNone = False"
| "truthy (PyStr cs) = (cs \<noteq> [])"
| "truthy (PyBytes bs) = (bs \<noteq> [])"

text \<open>
  \<^verbatim>\<open>str.encode('utf-8')\<close>: one to four bytes for each code point; a surrogate
  (\<open>0xD800\<close> to \<open>0xDFFF\<close>) cannot be encoded and raises \<^verbatim>\<open>UnicodeEncodeError\<close>.
\<close>

definition encode_char :: "nat \<Rightarrow> bytes option" where
  "encode_char cp =
     (if cp < 0x80 then Some [of_nat cp]
      else if cp < 0x800 then Some [of_nat (0xC0 + cp div 64), of_nat (0x80 + cp mod 64)]
      else if cp < 0x10000 then
        (if 0xD800 \<le> cp \<and> cp \<le> 0xDFFF then None
         else Some [of_nat (0xE0 + cp div 4096), of_nat (0x80 + cp div 64 mod 64),
                    of_nat (0x80 + cp mod 64)])
      else if cp < 0x110000 then
        Some [of_nat (0xF0 + cp div 262144), of_nat (0x80 + cp div 4096 mod 64),
              of_nat (0x80 + cp div 64 mod 64), of_nat (0x80 + cp mod 64)]
      else None)"

fun utf8_encode :: "nat list \<Rightarrow> bytes option" where
  "utf8_encode [] = Some []"
| "utf8_encode (c # cs) =
     (case encode_char c of
        None \<Rightarrow> None
      | Some bs \<Rightarrow> (case utf8_encode cs of None \<Rightarrow> None | Some rest \<Rightarrow> Some (bs @ rest)))"

text \<open>
  \<^verbatim>\<open>bytes.decode('utf-8')\<close>, the strict decoder: a lead byte fixes the number of
  continuation bytes (\<open>0x80\<close> to \<open>0xBF\<close>); overlong forms, surrogates and code points
  above \<open>0x10FFFF\<close> are refused by the ranges of the second byte. \<open>None\<close> stands for
  \<^verbatim>\<open>UnicodeDecodeError\<close>.
\<close>

definition is_cont :: "byte \<Rightarrow> bool" where
  "is_cont b = (0x80 \<le> unat b \<and> unat b \<le> 0xBF)"

definition second_ok :: "byte \<Rightarrow> byte \<Rightarrow> bool" where
  "second_ok b0 b1 =
     (if unat b0 = 0xE0 then 0xA0 \<le> unat b1 \<and> unat b1 \<le> 0xBF
      else if unat b0 = 0xED then 0x80 \<le> unat b1 \<and> unat b1 \<le> 0x9F
      else if unat b0 = 0xF0 then 0x90 \<le> unat b1 \<and> unat b1 \<le> 0xBF
      else if unat b0 = 0xF4 then 0x80 \<le> unat b1 \<and> unat b1 \<le> 0x8F
      else is_cont b1)"

fun utf8_decode :: "bytes \<Rightarrow> nat list option" where
  "utf8_decode [] = Some []"
| "utf8_decode (b0 # rest) =
     (if unat b0 < 0x80 then map_option ((#) (unat b0)) (utf8_decode rest)
      else if 0xC2 \<le> unat b0 \<and> unat b0 \<le> 0xDF then
        (case rest of
           b1 # rest1 \<Rightarrow>
             if is_cont b1
             then map_option ((#) ((unat b0 - 0xC0) * 64 + (unat b1 - 0x80))) (utf8_decode rest1)
             else None
         | _ \<Rightarrow> None)
      else if 0xE0 \<le> unat b0 \<and> unat b0 \<le> 0xEF then
        (case rest of
           b1 # b2 # rest2 \<Rightarrow>
             if second_ok b0 b1 \<and> is_cont b2
             then map_option ((#) ((unat b0 - 0xE0) * 4096 + (unat b1 - 0x80) * 64
                                    + (unat b2 - 0x80))) (utf8_decode rest2)
             else None
         | _ \<Rightarrow> None)
      else if 0xF0 \<le> unat b0 \<and> unat b0 \<le> 0xF4 then
        (case rest of
           b1 # b2 # b3 # rest3 \<Rightarrow>
             if second_ok b0 b1 \<and> is_cont b2 \<and> is_cont b3
             then map_option ((#) ((unat b0 - 0xF0) * 262144 + (unat b1 - 0x80) * 4096
                                    + (unat b2 - 0x80) * 64 + (unat b3 - 0x80)))
                    (utf8_decode rest3)
             else None
         | _ \<Rightarrow> None)
      else None)"

text \<open>\<^verbatim>\<open>if isinstance(x, str): x = x.encode('utf-8')\<close>: any other value is left as it is.\<close>

fun encode_if_str :: "pyval \<Rightarrow> error + pyval" where
  "encode_if_str (PyStr cs) =
     (case utf8_encode cs of None \<Rightarrow> Inl UnicodeEncodeError | Some bs \<Rightarrow> Inr (PyBytes bs))"
| "encode_if_str v = Inr v"

section \<open>The authenticated encryption API\<close>

text \<open>
  \<^verbatim>\<open>hashlib.pbkdf2_hmac\<close> and \<^verbatim>\<open>hmac.new(...).digest()\<close>, both with SHA-256, belong to the
  Python library and are parameters of the model. The key derivation takes password, salt,
  iteration count and output length, and may refuse its arguments (\<open>None\<close>, for instance an
  iteration count below 1). \<open>lib_ok\<close> is what the library guarantees: a derived key has the
  length asked for and a SHA-256 tag has 32 bytes.
\<close>

record crypto_lib =
  pbkdf2_hmac_sha256 :: "bytes \<Rightarrow> bytes \<Rightarrow> int \<Rightarrow> nat \<Rightarrow> bytes option"
  hmac_sha256_digest :: "bytes \<Rightarrow> bytes \<Rightarrow> bytes"

definition lib_ok :: "crypto_lib \<Rightarrow> bool" where
  "lib_ok lib =
     ((\<forall>password salt workload dklen stretched.
          pbkdf2_hmac_sha256 lib password salt workload dklen = Some stretched
          \<longrightarrow> length stretched = dklen)
      \<and> (\<forall>k msg. length (hmac_sha256_digest lib k msg) = 32))"

definition kdf_accepts :: "crypto_lib \<Rightarrow> int \<Rightarrow> bool" where
  "kdf_accepts lib workload =
     (\<forall>password salt dklen. pbkdf2_hmac_sha256 lib password salt workload dklen \<noteq> None)"

definition AES_KEY_SIZE :: nat where "AES_KEY_SIZE = 16"
definition HMAC_KEY_SIZE :: nat where "HMAC_KEY_SIZE = 16"
definition IV_SIZE :: nat where "IV_SIZE = 16"
definition SALT_SIZE :: nat where "SALT_SIZE = 16"
definition HMAC_SIZE :: nat where "HMAC_SIZE = 32"

definition get_key_iv :: "crypto_lib \<Rightarrow> bytes \<Rightarrow> bytes \<Rightarrow> int \<Rightarrow> error + (bytes \<times> bytes \<times> bytes)" where
  "get_key_iv lib password salt workload =
     (case pbkdf2_hmac_sha256 lib password salt workload (AES_KEY_SIZE + IV_SIZE + HMAC_KEY_SIZE) of
        None \<Rightarrow> Inl LibraryError
      | Some stretched \<Rightarrow>
          let aes_key = take AES_KEY_SIZE stretched;
              stretched = drop AES_KEY_SIZE stretched;
              hmac_key = take HMAC_KEY_SIZE stretched;
              stretched = drop HMAC_KEY_SIZE stretched;
              iv = take IV_SIZE stretched
          in Inr (aes_key, hmac_key, iv))"

definition validate_encryption_inputs :: "pyval \<Rightarrow> pyval \<Rightarrow> error + unit" where
  "validate_encryption_inputs key plaintext =
     (if key = PyNone \<or> py_len key = 0 then Inl EncryptDecryptWithoutKey
      else if \<not> truthy plaintext then Inl EncryptDecryptEmptyMessage
      else if py_len key \<notin> {16, 24, 32} then Inl InvalidKeyLength
      else
        (case plaintext of
           PyBytes p \<Rightarrow>
             (case utf8_decode p of
                None \<Rightarrow> Inl UnicodeDecodeError
              | Some chars \<Rightarrow>
                  if list_ex (\<lambda>char. char > 127) chars then Inl UnsupportedMessageType
                  else Inr ())
         | _ \<Rightarrow> Inl AttributeError))"

definition validate_decryption_inputs :: "pyval \<Rightarrow> pyval \<Rightarrow> error + unit" where
  "validate_decryption_inputs key ciphertext =
     (if key = PyNone \<or> py_len key = 0 then Inl EncryptDecryptWithoutKey
      else if \<not> truthy ciphertext then Inl EncryptDecryptEmptyMessage
      else if py_len key \<notin> {16, 24, 32} then Inl InvalidKeyLength
      else Inr ())"

text \<open>
  What a call does besides returning: the calls it makes to the random source, the key
  derivation, the cipher and the tag computation, in the order of the source. \<^verbatim>\<open>encrypt\<close> and
  \<^verbatim>\<open>decrypt\<close> return this log with their result.
\<close>

datatype event =
    Urandom nat
  | Pbkdf2 bytes pyval int nat
  | NewAES bytes
  | EncryptCBC bytes bytes
  | DecryptCBC bytes bytes
  | NewHmac bytes bytes

definition full_blocks_msg :: string where
  "full_blocks_msg = ''Ciphertext must be made of full 16-byte blocks.''"

definition min_length_msg :: string where
  "min_length_msg =
     [CHR 0x0A] @ ''    Ciphertext must be at least 32 bytes long (16 byte salt + 16 byte block). To''
     @ [CHR 0x0A] @ ''    encrypt or decrypt single blocks use '' @ [CHR 0x60]
     @ ''AES(key).decrypt_block(ciphertext)'' @ [CHR 0x60] @ ''.''
     @ [CHR 0x0A] @ ''    ''"

definition tampered_msg :: string where
  "tampered_msg = ''Ciphertext corrupted or tampered.''"

text \<open>
  \<^verbatim>\<open>encrypt\<close>. The argument \<open>urandom\<close> is the value \<^verbatim>\<open>os.urandom(SALT_SIZE)\<close> returns in this
  call. After the validation both arguments are bytes; the last case of the match on them
  cannot be reached.
\<close>

definition encrypt :: "crypto_lib \<Rightarrow> bytes \<Rightarrow> pyval \<Rightarrow> pyval \<Rightarrow> int \<Rightarrow> event list \<times> (error + bytes)" where
  "encrypt lib urandom key plaintext workload =
     (case encode_if_str key of Inl e \<Rightarrow> ([], Inl e) | Inr key \<Rightarrow>
     (case encode_if_str plaintext of Inl e \<Rightarrow> ([], Inl e) | Inr plaintext \<Rightarrow>
     (case validate_encryption_inputs key plaintext of Inl e \<Rightarrow> ([], Inl e) | Inr _ \<Rightarrow>
      (case (key, plaintext) of
         (PyBytes key, PyBytes plaintext) \<Rightarrow>
           let salt = urandom;
               log = [Urandom SALT_SIZE,
                      Pbkdf2 key (PyBytes salt) workload
                        (AES_KEY_SIZE + IV_SIZE + HMAC_KEY_SIZE)]
           in (case get_key_iv lib key salt workload of Inl e \<Rightarrow> (log, Inl e)
               | Inr (key, hmac_key, iv) \<Rightarrow>
             (case AES_init key of Inl e \<Rightarrow> (log @ [NewAES key], Inl e)
               | Inr cipher \<Rightarrow>
             (case encrypt_cbc cipher plaintext iv of
                 Inl e \<Rightarrow> (log @ [NewAES key, EncryptCBC plaintext iv], Inl e)
               | Inr ciphertext \<Rightarrow>
                   let hmac = hmac_sha256_digest lib hmac_key (salt @ ciphertext);
                       log = log @ [NewAES key, EncryptCBC plaintext iv,
                                    NewHmac hmac_key (salt @ ciphertext)]
                   in if length hmac \<noteq> HMAC_SIZE then (log, Inl (AssertionError []))
                      else (log, Inr (hmac @ salt @ ciphertext)))))
       | _ \<Rightarrow> ([], Inl TypeError)))))"

text \<open>
  \<^verbatim>\<open>decrypt\<close>. The key is validated and the two length assertions are made before a text
  key is encoded. \<^verbatim>\<open>compare_digest\<close> is equality of the two byte strings. A text blob
  is sliced like a byte string, and the key derivation, called with the text salt cut from
  it, raises \<^verbatim>\<open>TypeError\<close>. After the validation the key is bytes and the blob is not
  \<^verbatim>\<open>None\<close>; the last case of the match cannot be reached.
\<close>

definition decrypt :: "crypto_lib \<Rightarrow> pyval \<Rightarrow> pyval \<Rightarrow> int \<Rightarrow> event list \<times> (error + bytes)" where
  "decrypt lib key ciphertext workload =
     (case validate_decryption_inputs key ciphertext of Inl e \<Rightarrow> ([], Inl e) | Inr _ \<Rightarrow>
      (if py_len ciphertext mod 16 \<noteq> 0 then ([], Inl (AssertionError full_blocks_msg))
      else if py_len ciphertext < 32 then ([], Inl (AssertionError min_length_msg))
      else
      (case encode_if_str key of Inl e \<Rightarrow> ([], Inl e) | Inr key \<Rightarrow>
      (case (key, ciphertext) of
         (PyBytes key, PyBytes ciphertext) \<Rightarrow>
           let hmac = take HMAC_SIZE ciphertext;
               ciphertext = drop HMAC_SIZE ciphertext;
               salt = take SALT_SIZE ciphertext;
               ciphertext = drop SALT_SIZE ciphertext;
               log = [Pbkdf2 key (PyBytes salt) workload
                        (AES_KEY_SIZE + IV_SIZE + HMAC_KEY_SIZE)]
           in (case get_key_iv lib key salt workload of Inl e \<Rightarrow> (log, Inl e)
               | Inr (key, hmac_key, iv) \<Rightarrow>
                   let expected_hmac = hmac_sha256_digest lib hmac_key (salt @ ciphertext);
                       log = log @ [NewHmac hmac_key (salt @ ciphertext)]
                   in if hmac \<noteq> expected_hmac then (log, Inl (AssertionError tampered_msg))
                      else
                        (case AES_init key of Inl e \<Rightarrow> (log @ [NewAES key], Inl e)
                         | Inr cipher \<Rightarrow>
                             (log @ [NewAES key, DecryptCBC ciphertext iv],
                              decrypt_cbc cipher ciphertext iv)))
       | (PyBytes key, PyStr ciphertext) \<Rightarrow>
           ([Pbkdf2 key (PyStr (take SALT_SIZE (drop HMAC_SIZE ciphertext))) workload
               (AES_KEY_SIZE + IV_SIZE + HMAC_KEY_SIZE)],
            Inl TypeError)
       | _ \<Rightarrow> ([], Inl TypeError)))))"

section \<open>Well-formed states and cipher objects\<close>

text \<open>
  A state or round-key matrix is four words of four bytes. A cipher object built by the
  constructor has \<open>n_rounds + 1\<close> such matrices.
\<close>

definition wf_state :: "state \<Rightarrow> bool" where
  "wf_state s = (length s = 4 \<and> (\<forall>c \<in> set s. length c = 4))"

definition wf_aes :: "aes \<Rightarrow> bool" where
  "wf_aes self =
     (0 < n_rounds self \<and> length (key_matrices self) = n_rounds self + 1
      \<and> (\<forall>m \<in> set (key_matrices self). wf_state m))"

section \<open>Concrete instances\<close>

text \<open>
  A stand-in for the library with the guaranteed output lengths, used where a statement is
  evaluated at a concrete call: the key derivation refuses an iteration count below 1.
\<close>

definition stub_lib :: crypto_lib where
  "stub_lib = \<lparr>pbkdf2_hmac_sha256 = (\<lambda>password salt workload dklen.
                   if workload < 1 then None else Some (replicate dklen 0)),
               hmac_sha256_digest = (\<lambda>k msg. replicate 32 0)\<rparr>"

text \<open>The result of a failed \<^verbatim>\<open>assert\<close>, whatever its message.\<close>

fun is_assertion_error :: "error + 'a \<Rightarrow> bool" where
  "is_assertion_error (Inl (AssertionError msg)) = True"
| "is_assertion_error r = False"

text \<open>
  The example vectors of the published standard of the cipher (FIPS 197, appendix C): one
  plaintext block, a key of 128, 192 and 256 bits, and the ciphertext block for each key.
\<close>

definition kat_plaintext :: bytes where
  "kat_plaintext = [0x00, 0x11, 0x22, 0x33, 0x44, 0x55, 0x66, 0x77,
                    0x88, 0x99, 0xAA, 0xBB, 0xCC, 0xDD, 0xEE, 0xFF]"

definition kat_key_128 :: bytes where
  "kat_key_128 = [0x00, 0x01, 0x02, 0x03, 0x04, 0x05, 0x06, 0x07,
                  0x08, 0x09, 0x0A, 0x0B, 0x0C, 0x0D, 0x0E, 0x0F]"

definition kat_key_192 :: bytes where
  "kat_key_192 = [0x00, 0x01, 0x02, 0x03, 0x04, 0x05, 0x06, 0x07,
                  0x08, 0x09, 0x0A, 0x0B, 0x0C, 0x0D, 0x0E, 0x0F,
                  0x10, 0x11, 0x12, 0x13, 0x14, 0x15, 0x16, 0x17]"

definition kat_key_256 :: bytes where
  "kat_key_256 = [0x00, 0x01, 0x02, 0x03, 0x04, 0x05, 0x06, 0x07,
                  0x08, 0x09, 0x0A, 0x0B, 0x0C, 0x0D, 0x0E, 0x0F,
                  0x10, 0x11, 0x12, 0x13, 0x14, 0x15, 0x16, 0x17,
                  0x18, 0x19, 0x1A, 0x1B, 0x1C, 0x1D, 0x1E, 0x1F]"

definition kat_ciphertext_128 :: bytes where
  "kat_ciphertext_128 = [0x69, 0xC4, 0xE0, 0xD8, 0x6A, 0x7B, 0x04, 0x30,
                         0xD8, 0xCD, 0xB7, 0x80, 0x70, 0xB4, 0xC5, 0x5A]"

definition kat_ciphertext_192 :: bytes where
  "kat_ciphertext_192 = [0xDD, 0xA9, 0x7C, 0xA4, 0x86, 0x4C, 0xDF, 0xE0,
                         0x6E, 0xAF, 0x70, 0xA0, 0xEC, 0x0D, 0x71, 0x91]"

definition kat_ciphertext_256 :: bytes where
  "kat_ciphertext_256 = [0x8E, 0xA2, 0xB7, 0xCA, 0x51, 0x67, 0x45, 0xBF,
                         0xEA, 0xFC, 0x49, 0x90, 0x4B, 0x49, 0x60, 0x89]"



text \<open>A call that returned a value instead of raising.\<close>

fun returned :: "error + 'a \<Rightarrow> bool" where
  "returned (Inr v) = True"
| "returned (Inl e) = False"

text \<open>
  A key whose length does not depend on how it is measured: \<^verbatim>\<open>None\<close>, a byte string, or
  text of ASCII characters only, which UTF-8 encodes one byte for each character. An
  argument is \<open>encodable\<close> when the encoding \<^verbatim>\<open>encrypt\<close> applies to text does not raise.
\<close>

fun ascii_or_bytes :: "pyval \<Rightarrow> bool" where
  "ascii_or_bytes (PyStr cs) = list_all (\<lambda>c. c < 128) cs"
| "ascii_or_bytes v = True"

definition encodable :: "pyval \<Rightarrow> bool" where
  "encodable v = returned (encode_if_str v)"


section \<open>Input validation\<close>

lemma encode_char_nonempty: "encode_char c = Some bs \<Longrightarrow> bs \<noteq> []"
  by (auto simp: encode_char_def split: if_splits)

lemma utf8_encode_nonempty: "utf8_encode cs = Some bs \<Longrightarrow> cs \<noteq> [] \<Longrightarrow> bs \<noteq> []"
  by (cases cs) (auto split: option.splits dest: encode_char_nonempty)

lemma encode_if_str_truthy: "encode_if_str v = Inr v' \<Longrightarrow> truthy v \<Longrightarrow> truthy v'"
  by (cases v) (auto split: option.splits dest: utf8_encode_nonempty)

text \<open>
  C6, as the code has it. \<^verbatim>\<open>decrypt\<close> validates first: when the key passes the validation
  and the blob is not empty, a blob whose length is not a multiple of 16 or is below 32
  fails an \<^verbatim>\<open>assert\<close>, with no call logged before. (An empty blob and a bad key are answered
  by the validation, with its typed errors.)
\<close>

theorem blob_length_check:
  assumes "key \<noteq> PyNone" and "py_len key \<in> {16, 24, 32}" and "truthy blob"
    and "py_len blob mod 16 \<noteq> 0 \<or> py_len blob < 32"
  shows "fst (decrypt lib key blob workload) = []
         \<and> is_assertion_error (snd (decrypt lib key blob workload))"
proof -
  from assms have "validate_decryption_inputs key blob = Inr ()"
    by (auto simp: validate_decryption_inputs_def)
  with assms(4) show ?thesis by (auto simp: decrypt_def)
qed

theorem blob_length_check_witness:
  "fst (decrypt stub_lib (PyBytes (replicate 16 0x41)) (PyBytes (replicate 17 0)) 1) = []
   \<and> is_assertion_error
        (snd (decrypt stub_lib (PyBytes (replicate 16 0x41)) (PyBytes (replicate 17 0)) 1))"
  using blob_length_check [of "PyBytes (replicate 16 0x41)" "PyBytes (replicate 17 0)" stub_lib 1]
  by simp

text \<open>
  The claim as it is written fails at the empty blob, which is shorter than 32 bytes: the
  validation answers it with \<^verbatim>\<open>EncryptDecryptEmptyMessage\<close>, not with a failed assertion.
\<close>

theorem blob_length_check_counterexample:
  "length ([] :: bytes) < 32
   \<and> decrypt stub_lib (PyBytes (replicate 16 0x41)) (PyBytes []) 1
       = ([], Inl EncryptDecryptEmptyMessage)
   \<and> \<not> is_assertion_error (snd (decrypt stub_lib (PyBytes (replicate 16 0x41)) (PyBytes []) 1))"
  by (simp add: decrypt_def validate_decryption_inputs_def)

section \<open>The key schedule\<close>

text \<open>
  For the three key sizes the loop of \<^verbatim>\<open>_expand_key\<close> never reads out of range: the
  round-constant counter \<open>i\<close> satisfies \<open>iteration_size * (i - 1) < length key_columns\<close>, so
  it stays below the 32 entries of \<^verbatim>\<open>r_con\<close>, and every word has four bytes.
\<close>

lemma length_r_con: "length r_con = 32"
  by (simp add: r_con_def)

lemma length_xor_bytes: "length (xor_bytes a b) = min (length a) (length b)"
  by (simp add: xor_bytes_def)

lemma schedule_core_ok:
  assumes "length word = 4" and "i < 32"
  shows "\<exists>w. schedule_core word i = Inr w \<and> length w = 4"
proof -
  from assms(1) obtain b bs where w: "word = b # bs" and "length bs = 3"
    by (cases word) auto
  then show ?thesis using assms(2)
    by (simp add: schedule_core_def length_r_con Let_def)
qed

lemma expand_step_ok:
  assumes "key_columns \<noteq> []" and "0 < iteration_size"
    and "iteration_size \<le> length key_columns"
    and "\<forall>w \<in> set key_columns. length w = 4" and "i < 32"
  shows "\<exists>w i'. expand_step key_len iteration_size key_columns i = Inr (w, i') \<and> length w = 4
           \<and> (i' = i \<or> (i' = i + 1 \<and> length key_columns mod iteration_size = 0))"
proof -
  have l: "length (last key_columns) = 4" using assms(1,4) by simp
  have "key_columns ! (length key_columns - iteration_size) \<in> set key_columns"
    using assms(1,2) by (intro nth_mem) (cases key_columns, auto)
  then have p: "length (key_columns ! (length key_columns - iteration_size)) = 4"
    using assms(4) by blast
  show ?thesis
  proof (cases "length key_columns mod iteration_size = 0")
    case True
    from schedule_core_ok [OF l assms(5)] obtain w
      where "schedule_core (last key_columns) i = Inr w" "length w = 4" by blast
    with True assms(1,2,3) p show ?thesis
      by (simp add: expand_step_def length_xor_bytes)
  next
    case False
    with assms(1,2,3) p l show ?thesis
      by (simp add: expand_step_def length_xor_bytes)
  qed
qed

lemma expand_loop_ok:
  assumes "0 < iteration_size" and "4 \<le> iteration_size"
    and "iteration_size \<le> length key_columns"
    and "\<forall>w \<in> set key_columns. length w = 4"
    and "iteration_size * (i - 1) < length key_columns"
    and "(rounds + 1) * 4 \<le> 60"
  shows "\<exists>ks. expand_loop rounds key_len iteration_size key_columns i = Inr ks
           \<and> length ks = max (length key_columns) ((rounds + 1) * 4)
           \<and> (\<forall>w \<in> set ks. length w = 4)"
  using assms
proof (induction rounds key_len iteration_size key_columns i rule: expand_loop.induct)
  case (1 rounds key_len iteration_size key_columns i)
  show ?case
  proof (cases "length key_columns < (rounds + 1) * 4")
    case False
    then show ?thesis using "1.prems" by (subst expand_loop.simps) (simp add: max_def)
  next
    case True
    have ne: "key_columns \<noteq> []" using "1.prems" by auto
    have "4 * (i - 1) \<le> iteration_size * (i - 1)" using "1.prems"(2) by simp
    then have i32: "i < 32" using "1.prems"(5,6) True by linarith
    from expand_step_ok [OF ne "1.prems"(1,3,4) i32, of key_len] obtain w i'
      where st: "expand_step key_len iteration_size key_columns i = Inr (w, i')"
        and lw: "length w = 4"
        and i': "i' = i \<or> (i' = i + 1 \<and> length key_columns mod iteration_size = 0)"
      by (elim exE conjE) (rule that)
    have inv: "iteration_size * (i' - 1) < length (key_columns @ [w])"
    proof (cases "i' = i")
      case True
      then show ?thesis using "1.prems"(5) by simp
    next
      case False
      with i' have e: "i' = i + 1" and m: "length key_columns mod iteration_size = 0" by auto
      from m obtain q where q: "length key_columns = iteration_size * q"
        by (auto simp: mod_eq_0_iff_dvd)
      with "1.prems"(1,5) have "i - 1 < q" by simp
      then have "i \<le> q" by simp
      then have "iteration_size * i \<le> iteration_size * q" by (rule mult_le_mono2)
      then have "iteration_size * i < Suc (iteration_size * q)" by (rule le_imp_less_Suc)
      with q e show ?thesis by (simp del: mult_le_cancel1 mult_less_cancel1)
    qed
    have "\<exists>ks. expand_loop rounds key_len iteration_size (key_columns @ [w]) i' = Inr ks
           \<and> length ks = max (length (key_columns @ [w])) ((rounds + 1) * 4)
           \<and> (\<forall>w \<in> set ks. length w = 4)"
      using "1.IH" [OF True st refl] "1.prems" lw inv by simp
    then obtain ks where "expand_loop rounds key_len iteration_size (key_columns @ [w]) i' = Inr ks"
      "length ks = max (length (key_columns @ [w])) ((rounds + 1) * 4)" "\<forall>w \<in> set ks. length w = 4"
      by blast
    with True st show ?thesis
      by (subst expand_loop.simps) (auto simp: max_def)
  qed
qed

section \<open>The primitive operations and their inverses\<close>

lemma inv_s_box_table: "map (\<lambda>b. inv_s_box ! unat b) s_box = map of_nat [0..<256]"
  by (simp add: s_box_def inv_s_box_def upt_conv_Cons del: upt_Suc)

lemma length_s_box: "length s_box = 256" by (simp add: s_box_def)
lemma inv_s_box_s_box: "inv_s_box ! unat (s_box ! unat (b :: byte)) = b"
proof -
  have lt: "unat b < 256" using unsigned_less [of b] by simp
  have "inv_s_box ! unat (s_box ! unat b) = map (\<lambda>b. inv_s_box ! unat b) s_box ! unat b"
    using lt by (simp add: length_s_box)
  also have "\<dots> = map of_nat [0..<256] ! unat b" by (simp only: inv_s_box_table)
  also have "\<dots> = b" using lt by simp
  finally show ?thesis .
qed

lemma gf_mul_bits_numeral: "gf_mul_bits (numeral n) a b = (if a AND 1 \<noteq> 0 then b else 0) XOR gf_mul_bits (pred_numeral n) (drop_bit 1 a) (xtime b)"
  by (simp add: numeral_eq_Suc)
lemma gf_mul_1: "gf_mul 1 b = b" by (simp add: gf_mul_def gf_mul_bits_numeral)
lemma gf_mul_2: "gf_mul 2 b = xtime b" by (simp add: gf_mul_def gf_mul_bits_numeral)
lemma gf_mul_3: "gf_mul 3 b = b XOR xtime b" by (simp add: gf_mul_def gf_mul_bits_numeral)
lemma gf_mul_9: "gf_mul 9 b = b XOR xtime (xtime (xtime b))" by (simp add: gf_mul_def gf_mul_bits_numeral)
lemma gf_mul_11: "gf_mul 11 b = b XOR xtime b XOR xtime (xtime (xtime b))" by (simp add: gf_mul_def gf_mul_bits_numeral)
lemma gf_mul_13: "gf_mul 13 b = b XOR xtime (xtime b) XOR xtime (xtime (xtime b))" by (simp add: gf_mul_def gf_mul_bits_numeral)
lemma gf_mul_14: "gf_mul 14 b = xtime b XOR xtime (xtime b) XOR xtime (xtime (xtime b))" by (simp add: gf_mul_def gf_mul_bits_numeral)
lemmas gf_mul_consts = gf_mul_1 gf_mul_2 gf_mul_3 gf_mul_9 gf_mul_11 gf_mul_13 gf_mul_14

lemma upt4: "[0..<4] = [0, 1, 2, 3]" by (simp add: upt_rec)

lemma list4: "length xs = 4 \<Longrightarrow> \<exists>a b c d. xs = [a, b, c, d]"
  by (auto simp: length_Suc_conv eval_nat_numeral)

lemma wf_stateE:
  assumes "wf_state s"
  obtains a0 a1 a2 a3 b0 b1 b2 b3 c0 c1 c2 c3 d0 d1 d2 d3
  where "s = [[a0, a1, a2, a3], [b0, b1, b2, b3], [c0, c1, c2, c3], [d0, d1, d2, d3]]"
proof -
  from assms obtain a b c d where s: "s = [a, b, c, d]"
    using list4 [of s] by (auto simp: wf_state_def)
  with assms have "length a = 4" "length b = 4" "length c = 4" "length d = 4"
    by (auto simp: wf_state_def)
  then show thesis using s that list4 [of a] list4 [of b] list4 [of c] list4 [of d]
    by blast
qed

lemma wf_state_literal [simp]:
  "wf_state [[a0, a1, a2, a3], [b0, b1, b2, b3], [c0, c1, c2, c3], [d0, d1, d2, d3]]"
  by (simp add: wf_state_def)

lemma xor_cancel_left: "a XOR (a XOR b) = (b :: byte)"
  by (simp flip: xor.assoc)

lemma top_bit: "(a AND 0x80 = 0) = (\<not> bit a 7)" for a :: byte
  using and_exp_eq_0_iff_not_bit [of a 7] by simp

lemma xtime_xor: "xtime (a XOR b) = xtime a XOR xtime b"
  by (simp add: xtime_def top_bit bit_xor_iff ac_simps xor_cancel_left)

lemma mix_column_eq:
  "gf_mat_vec mix_matrix [a, b, c, d] =
     [xtime a XOR (b XOR xtime b) XOR c XOR d,
      a XOR xtime b XOR (c XOR xtime c) XOR d,
      a XOR b XOR xtime c XOR (d XOR xtime d),
      (a XOR xtime a) XOR b XOR c XOR xtime d]"
  by (simp add: gf_mat_vec_def mix_matrix_def gf_mul_consts ac_simps)

lemma inv_mix_column:
  "gf_mat_vec inv_mix_matrix (gf_mat_vec mix_matrix [a, b, c, d]) = [a, b, c, d]"
  apply (simp only: mix_column_eq)
  apply (simp add: gf_mat_vec_def inv_mix_matrix_def gf_mul_consts xtime_xor)
  apply (simp add: ac_simps xor_cancel_left)
  done

lemma wf_sub_bytes: "wf_state s \<Longrightarrow> wf_state (sub_bytes s)"
  by (auto simp: wf_state_def sub_bytes_def)

lemma wf_inv_sub_bytes: "wf_state s \<Longrightarrow> wf_state (inv_sub_bytes s)"
  by (auto simp: wf_state_def inv_sub_bytes_def)

lemma inv_sub_bytes_sub_bytes: "inv_sub_bytes (sub_bytes s) = s"
  by (simp add: inv_sub_bytes_def sub_bytes_def inv_s_box_s_box map_idI)

lemma wf_shift_rows: "wf_state (shift_rows s)"
  by (simp add: wf_state_def shift_rows_def upt4)

lemma wf_inv_shift_rows: "wf_state (inv_shift_rows s)"
  by (simp add: wf_state_def inv_shift_rows_def upt4)

lemma shift_rows_eq:
  "shift_rows [[a0, a1, a2, a3], [b0, b1, b2, b3], [c0, c1, c2, c3], [d0, d1, d2, d3]] =
     [[a0, b1, c2, d3], [b0, c1, d2, a3], [c0, d1, a2, b3], [d0, a1, b2, c3]]"
  by (simp add: shift_rows_def upt4)

lemma inv_shift_rows_eq:
  "inv_shift_rows [[a0, a1, a2, a3], [b0, b1, b2, b3], [c0, c1, c2, c3], [d0, d1, d2, d3]] =
     [[a0, d1, c2, b3], [b0, a1, d2, c3], [c0, b1, a2, d3], [d0, c1, b2, a3]]"
  by (simp add: inv_shift_rows_def upt4)

lemma inv_shift_rows_shift_rows: "wf_state s \<Longrightarrow> inv_shift_rows (shift_rows s) = s"
  by (erule wf_stateE) (simp add: shift_rows_eq inv_shift_rows_eq)

lemma length_gf_mat_vec: "length (gf_mat_vec m col) = length m"
  by (simp add: gf_mat_vec_def)

lemma wf_mix_columns: "wf_state s \<Longrightarrow> wf_state (mix_columns s)"
  by (auto simp: wf_state_def mix_columns_def length_gf_mat_vec mix_matrix_def)

lemma wf_inv_mix_columns: "wf_state s \<Longrightarrow> wf_state (inv_mix_columns s)"
  by (auto simp: wf_state_def inv_mix_columns_def length_gf_mat_vec inv_mix_matrix_def)

lemma inv_mix_columns_mix_columns: "wf_state s \<Longrightarrow> inv_mix_columns (mix_columns s) = s"
  by (erule wf_stateE) (simp add: mix_columns_def inv_mix_columns_def inv_mix_column)

lemma wf_add_round_key: "wf_state s \<Longrightarrow> wf_state k \<Longrightarrow> wf_state (add_round_key s k)"
  by (erule wf_stateE, erule wf_stateE) (simp add: add_round_key_def xor_bytes_def)

lemma add_round_key_twice:
  "wf_state s \<Longrightarrow> wf_state k \<Longrightarrow> add_round_key (add_round_key s k) k = s"
  by (erule wf_stateE, erule wf_stateE)
     (simp add: add_round_key_def xor_bytes_def xor.assoc)

lemma wf_bytes2matrix: "length text = 16 \<Longrightarrow> wf_state (bytes2matrix text)"
  by (auto simp: wf_state_def bytes2matrix_def)

lemma length_matrix2bytes: "wf_state s \<Longrightarrow> length (matrix2bytes s) = 16"
  by (erule wf_stateE) (simp add: matrix2bytes_def)

lemma bytes2matrix_matrix2bytes: "wf_state s \<Longrightarrow> bytes2matrix (matrix2bytes s) = s"
  by (erule wf_stateE) (simp add: matrix2bytes_def bytes2matrix_def upt4)

lemma list16:
  assumes "length xs = 16"
  shows "\<exists>a0 a1 a2 a3 b0 b1 b2 b3 c0 c1 c2 c3 d0 d1 d2 d3.
           xs = [a0, a1, a2, a3, b0, b1, b2, b3, c0, c1, c2, c3, d0, d1, d2, d3]"
  using assms by (auto simp: length_Suc_conv eval_nat_numeral)

lemma matrix2bytes_bytes2matrix:
  assumes "length text = 16"
  shows "matrix2bytes (bytes2matrix text) = text"
proof -
  from list16 [OF assms] obtain a0 a1 a2 a3 b0 b1 b2 b3 c0 c1 c2 c3 d0 d1 d2 d3
    where "text = [a0, a1, a2, a3, b0, b1, b2, b3, c0, c1, c2, c3, d0, d1, d2, d3]" by blast
  then show ?thesis by (simp add: matrix2bytes_def bytes2matrix_def upt4)
qed

section \<open>The constructor\<close>

lemma bytes2matrix_words:
  assumes "length text = 4 * n"
  shows "length (bytes2matrix text) = n \<and> (\<forall>w \<in> set (bytes2matrix text). length w = 4)"
proof -
  have "(length text + 3) div 4 = n" using assms by simp
  then show ?thesis using assms by (auto simp: bytes2matrix_def)
qed

lemma group_words_wf:
  assumes "length ks = 4 * m" and "\<forall>w \<in> set ks. length w = 4"
  shows "\<forall>mat \<in> set (map (\<lambda>i. take 4 (drop (4 * i) ks)) [0..<length ks div 4]). wf_state mat"
proof -
  have "wf_state (take 4 (drop (4 * i) ks))" if "i < m" for i
  proof -
    have "length (take 4 (drop (4 * i) ks)) = 4" using assms(1) that by simp
    moreover have "set (take 4 (drop (4 * i) ks)) \<subseteq> set ks"
      by (meson set_take_subset set_drop_subset subset_trans)
    ultimately show ?thesis using assms(2) by (auto simp: wf_state_def)
  qed
  then show ?thesis using assms(1) by simp
qed

lemma expand_key_ok:
  assumes "(length master_key, rounds) \<in> {(16, 10), (24, 12), (32, 14)}"
  shows "\<exists>ms. expand_key rounds master_key = Inr ms \<and> length ms = rounds + 1
           \<and> (\<forall>m \<in> set ms. wf_state m)"
proof -
  define n where "n = length master_key div 4"
  have len: "length master_key = 4 * n" and n: "n \<in> {4, 6, 8}"
    using assms by (auto simp: n_def)
  note w = bytes2matrix_words [OF len]
  have r60: "(rounds + 1) * 4 \<le> 60" using assms by auto
  have "\<exists>ks. expand_loop rounds (length master_key) n (bytes2matrix master_key) 1 = Inr ks
           \<and> length ks = max (length (bytes2matrix master_key)) ((rounds + 1) * 4)
           \<and> (\<forall>w \<in> set ks. length w = 4)"
    using n w by (intro expand_loop_ok r60) auto
  then obtain ks where ks: "expand_loop rounds (length master_key) n (bytes2matrix master_key) 1 = Inr ks"
    and lks: "length ks = max (length (bytes2matrix master_key)) ((rounds + 1) * 4)"
    and wks: "\<forall>w \<in> set ks. length w = 4" by blast
  have l4: "length ks = 4 * (rounds + 1)" using lks w n assms by auto
  from group_words_wf [OF l4 wks] l4 ks show ?thesis
    by (simp add: expand_key_def n_def)
qed

lemma AES_init_ok:
  assumes "length master_key \<in> {16, 24, 32}"
  shows "\<exists>self. AES_init master_key = Inr self \<and> wf_aes self
           \<and> rounds_by_key_size (length master_key) = Some (n_rounds self)"
proof -
  from assms obtain rounds where r: "rounds_by_key_size (length master_key) = Some rounds"
    and p: "(length master_key, rounds) \<in> {(16, 10), (24, 12), (32, 14)}"
    by (auto simp: rounds_by_key_size_def)
  from expand_key_ok [OF p] obtain ms where "expand_key rounds master_key = Inr ms"
    "length ms = rounds + 1" "\<forall>m \<in> set ms. wf_state m" by blast
  with r p show ?thesis by (auto simp: AES_init_def wf_aes_def)
qed

lemma AES_init_Inr:
  assumes "AES_init master_key = Inr self"
  shows "length master_key \<in> {16, 24, 32} \<and> wf_aes self
           \<and> rounds_by_key_size (length master_key) = Some (n_rounds self)"
proof -
  from assms have "rounds_by_key_size (length master_key) \<noteq> None"
    by (auto simp: AES_init_def split: option.splits)
  then have l: "length master_key \<in> {16, 24, 32}"
    by (auto simp: rounds_by_key_size_def split: if_splits)
  from AES_init_ok [OF l] assms l show ?thesis by auto
qed

lemma AES_init_16: 
  assumes "length master_key = 16"
  shows "\<exists>self. AES_init master_key = Inr self \<and> wf_aes self \<and> n_rounds self = 10"
  using AES_init_ok [of master_key] assms by (auto simp: rounds_by_key_size_def)

section \<open>One block\<close>

lemma encrypt_block_flat:
  "encrypt_block self plaintext =
     (if length plaintext \<noteq> 16 then Inl (AssertionError [])
      else Inr (matrix2bytes (add_round_key (shift_rows (sub_bytes
             (foldl (encrypt_round (key_matrices self))
                (add_round_key (bytes2matrix plaintext) (key_matrices self ! 0))
                [1..<n_rounds self])))
             (last (key_matrices self)))))"
  by (simp add: encrypt_block_def Let_def)

lemma decrypt_block_flat:
  "decrypt_block self ciphertext =
     (if length ciphertext \<noteq> 16 then Inl (AssertionError [])
      else Inr (matrix2bytes (add_round_key
             (foldl (decrypt_round (key_matrices self))
                (inv_sub_bytes (inv_shift_rows
                   (add_round_key (bytes2matrix ciphertext) (last (key_matrices self)))))
                (rev [1..<n_rounds self]))
             (key_matrices self ! 0))))"
  by (simp add: decrypt_block_def Let_def)

lemma wf_encrypt_round: "wf_state s \<Longrightarrow> wf_state (ms ! i) \<Longrightarrow> wf_state (encrypt_round ms s i)"
  by (simp add: encrypt_round_def wf_add_round_key wf_mix_columns wf_shift_rows)

lemma decrypt_round_encrypt_round:
  assumes "wf_state s" and "wf_state (ms ! i)"
  shows "decrypt_round ms (encrypt_round ms s i) i = s"
proof -
  have "wf_state (mix_columns (shift_rows (sub_bytes s)))"
    by (simp add: wf_mix_columns wf_shift_rows)
  then have "add_round_key (encrypt_round ms s i) (ms ! i) = mix_columns (shift_rows (sub_bytes s))"
    using assms(2) by (simp add: encrypt_round_def add_round_key_twice)
  then show ?thesis using assms(1)
    by (simp add: decrypt_round_def inv_mix_columns_mix_columns wf_shift_rows
        inv_shift_rows_shift_rows wf_sub_bytes inv_sub_bytes_sub_bytes)
qed

lemma wf_encrypt_rounds:
  "wf_state s \<Longrightarrow> \<forall>i \<in> set xs. wf_state (ms ! i) \<Longrightarrow> wf_state (foldl (encrypt_round ms) s xs)"
  by (induction xs arbitrary: s) (simp_all add: wf_encrypt_round)

lemma decrypt_rounds_encrypt_rounds:
  "wf_state s \<Longrightarrow> \<forall>i \<in> set xs. wf_state (ms ! i) \<Longrightarrow>
     foldl (decrypt_round ms) (foldl (encrypt_round ms) s xs) (rev xs) = s"
proof (induction xs arbitrary: s)
  case Nil
  then show ?case by simp
next
  case (Cons x xs)
  then have "wf_state (encrypt_round ms s x)" by (simp add: wf_encrypt_round)
  with Cons have "foldl (decrypt_round ms) (foldl (encrypt_round ms) (encrypt_round ms s x) xs) (rev xs)
      = encrypt_round ms s x" by simp
  with Cons.prems show ?case by (simp add: decrypt_round_encrypt_round)
qed

lemma wf_aes_matrices:
  assumes "wf_aes self"
  shows "wf_state (key_matrices self ! 0)" and "wf_state (last (key_matrices self))"
    and "\<forall>i \<in> set [1..<n_rounds self]. wf_state (key_matrices self ! i)"
    and "last (key_matrices self) = key_matrices self ! n_rounds self"
proof -
  from assms have l: "length (key_matrices self) = n_rounds self + 1"
    and w: "\<forall>m \<in> set (key_matrices self). wf_state m" by (auto simp: wf_aes_def)
  from l have ne: "key_matrices self \<noteq> []" by auto
  show "wf_state (key_matrices self ! 0)" using l w by (simp add: ne)
  show "wf_state (last (key_matrices self))" using w ne by simp
  show "\<forall>i \<in> set [1..<n_rounds self]. wf_state (key_matrices self ! i)" using l w by simp
  show "last (key_matrices self) = key_matrices self ! n_rounds self"
    using l ne by (simp add: last_conv_nth)
qed

lemma encrypt_block_ok:
  assumes "wf_aes self" and "length b = 16"
  shows "\<exists>c. encrypt_block self b = Inr c \<and> length c = 16 \<and> decrypt_block self c = Inr b"
proof -
  let ?ms = "key_matrices self"
  let ?s0 = "add_round_key (bytes2matrix b) (?ms ! 0)"
  let ?s1 = "foldl (encrypt_round ?ms) ?s0 [1..<n_rounds self]"
  let ?s2 = "add_round_key (shift_rows (sub_bytes ?s1)) (last ?ms)"
  note m = wf_aes_matrices [OF assms(1)]
  have w0: "wf_state ?s0" using assms(2) m(1) by (simp add: wf_add_round_key wf_bytes2matrix)
  have w1: "wf_state ?s1" using w0 m(3) by (rule wf_encrypt_rounds)
  have w2: "wf_state ?s2" using m(2) by (simp add: wf_add_round_key wf_shift_rows)
  have e: "encrypt_block self b = Inr (matrix2bytes ?s2)"
    using assms(2) by (simp add: encrypt_block_flat)
  have l: "length (matrix2bytes ?s2) = 16" using w2 by (rule length_matrix2bytes)
  have "add_round_key ?s2 (last ?ms) = shift_rows (sub_bytes ?s1)"
    using m(2) by (simp add: add_round_key_twice wf_shift_rows)
  then have "inv_sub_bytes (inv_shift_rows (add_round_key ?s2 (last ?ms))) = ?s1"
    using w1 by (simp add: inv_shift_rows_shift_rows wf_sub_bytes inv_sub_bytes_sub_bytes)
  moreover have "foldl (decrypt_round ?ms) ?s1 (rev [1..<n_rounds self]) = ?s0"
    using w0 m(3) by (rule decrypt_rounds_encrypt_rounds)
  moreover have "add_round_key ?s0 (?ms ! 0) = bytes2matrix b"
    using assms(2) m(1) by (simp add: add_round_key_twice wf_bytes2matrix)
  ultimately have "decrypt_block self (matrix2bytes ?s2) = Inr b"
    using l w2 assms(2)
    by (simp add: decrypt_block_flat bytes2matrix_matrix2bytes matrix2bytes_bytes2matrix)
  with e l show ?thesis by blast
qed

text \<open>
  C3. For a master key of 16, 24 or 32 bytes the constructor succeeds, and for every block
  \<open>b\<close> of 16 bytes \<^verbatim>\<open>decrypt_block\<close> returns \<open>b\<close> from the block \<^verbatim>\<open>encrypt_block\<close> made of it.
  \<^verbatim>\<open>decrypt_block\<close> is AddRoundKey with the last matrix, InvShiftRows, InvSubBytes, then for
  \<open>i\<close> from \<open>n_rounds - 1\<close> down to 1 AddRoundKey with matrix \<open>i\<close>, InvMixColumns,
  InvShiftRows, InvSubBytes, and at last AddRoundKey with matrix 0: the inverse operations
  of \<^verbatim>\<open>encrypt_block\<close>, with the round keys in the opposite order.
\<close>

theorem block_roundtrip:
  assumes "length master_key \<in> {16, 24, 32}" and "length b = 16"
  shows "\<exists>self c. AES_init master_key = Inr self \<and> encrypt_block self b = Inr c
           \<and> decrypt_block self c = Inr b
           \<and> decrypt_block self c = Inr (matrix2bytes (add_round_key
                 (foldl (\<lambda>s i. inv_sub_bytes (inv_shift_rows (inv_mix_columns
                            (add_round_key s (key_matrices self ! i)))))
                    (inv_sub_bytes (inv_shift_rows
                       (add_round_key (bytes2matrix c) (key_matrices self ! n_rounds self))))
                    (rev [1..<n_rounds self]))
                 (key_matrices self ! 0)))
           \<and> encrypt_block self b = Inr (matrix2bytes (add_round_key (shift_rows (sub_bytes
                 (foldl (\<lambda>s i. add_round_key (mix_columns (shift_rows (sub_bytes s)))
                            (key_matrices self ! i))
                    (add_round_key (bytes2matrix b) (key_matrices self ! 0))
                    [1..<n_rounds self])))
                 (key_matrices self ! n_rounds self)))"
proof -
  from AES_init_ok [OF assms(1)] obtain self
    where i: "AES_init master_key = Inr self" and w: "wf_aes self" by blast
  from encrypt_block_ok [OF w assms(2)] obtain c
    where e: "encrypt_block self b = Inr c" and l: "length c = 16"
      and d: "decrypt_block self c = Inr b" by blast
  have dr: "decrypt_round (key_matrices self) = (\<lambda>s i. inv_sub_bytes (inv_shift_rows
      (inv_mix_columns (add_round_key s (key_matrices self ! i)))))"
    by (intro ext) (simp add: decrypt_round_def)
  have er: "encrypt_round (key_matrices self) = (\<lambda>s i. add_round_key
      (mix_columns (shift_rows (sub_bytes s))) (key_matrices self ! i))"
    by (intro ext) (simp add: encrypt_round_def)
  note m = wf_aes_matrices(4) [OF w]
  have "decrypt_block self c = Inr (matrix2bytes (add_round_key
                 (foldl (\<lambda>s i. inv_sub_bytes (inv_shift_rows (inv_mix_columns
                            (add_round_key s (key_matrices self ! i)))))
                    (inv_sub_bytes (inv_shift_rows
                       (add_round_key (bytes2matrix c) (key_matrices self ! n_rounds self))))
                    (rev [1..<n_rounds self]))
                 (key_matrices self ! 0)))"
    using l by (simp add: decrypt_block_flat dr m)
  moreover have "encrypt_block self b = Inr (matrix2bytes (add_round_key (shift_rows (sub_bytes
                 (foldl (\<lambda>s i. add_round_key (mix_columns (shift_rows (sub_bytes s)))
                            (key_matrices self ! i))
                    (add_round_key (bytes2matrix b) (key_matrices self ! 0))
                    [1..<n_rounds self])))
                 (key_matrices self ! n_rounds self)))"
    using assms(2) by (simp add: encrypt_block_flat er m)
  ultimately show ?thesis using i e d by blast
qed

theorem block_roundtrip_witness:
  "\<exists>self c. AES_init (replicate 24 0x2B) = Inr self
      \<and> encrypt_block self (replicate 16 0x32) = Inr c
      \<and> decrypt_block self c = Inr (replicate 16 0x32)"
  using block_roundtrip [of "replicate 24 0x2B" "replicate 16 0x32"] by auto

section \<open>Padding and CBC mode\<close>

lemma pad_eq:
  "\<exists>k. pad p = p @ replicate k (of_nat k) \<and> 1 \<le> k \<and> k \<le> 16 \<and> k = 16 - length p mod 16"
  by (simp add: pad_def Let_def)

lemma length_pad: "length (pad p) = 16 * (length p div 16 + 1)"
proof -
  have "length (pad p) = length p + (16 - length p mod 16)" by (simp add: pad_def Let_def)
  then show ?thesis by presburger
qed

lemma unpad_pad: "unpad (pad p) = Inr p"
proof -
  from pad_eq [of p] obtain k where p: "pad p = p @ replicate k (of_nat k)"
    and k: "1 \<le> k" "k \<le> 16" by blast
  have u: "unat (of_nat k :: byte) = k" using k by (simp add: unat_of_nat)
  have l: "last (pad p) = of_nat k" using p k by simp
  show ?thesis using k by (simp add: unpad_def l u Let_def) (simp add: p u)
qed

lemma split_blocks_Nil: "split_blocks [] = []"
  by (simp add: split_blocks_def)

lemma split_blocks_append:
  assumes "length b = 16"
  shows "split_blocks (b @ rest) = b # split_blocks rest"
proof -
  let ?f = "\<lambda>i. take 16 (drop (16 * i) (b @ rest))"
  let ?k = "(length rest + 15) div 16"
  have "length (b @ rest) + 15 = 16 + (length rest + 15)"
    using assms by simp
  moreover have "(16 + (length rest + 15)) div 16 = (length rest + 15) div 16 + 1"
    by (rule div_add_self1) simp
  ultimately have n: "(length (b @ rest) + 15) div 16 = Suc ?k"
    by simp
  have u: "[0..<Suc ?k] = 0 # map Suc [0..<?k]"
    by (subst upt_conv_Cons) (simp_all only: zero_less_Suc map_Suc_upt)
  have f0: "?f 0 = b" using assms by simp
  have fS: "?f (Suc i) = take 16 (drop (16 * i) rest)" for i
  proof -
    have "16 * Suc i = 16 * i + 16" by simp
    then have "drop (16 * Suc i) (b @ rest) = drop (16 * i) (drop 16 (b @ rest))"
      by (simp only: drop_drop)
    also have "drop 16 (b @ rest) = rest" using assms by simp
    finally show ?thesis by simp
  qed
  have "split_blocks (b @ rest) = map ?f [0..<Suc ?k]"
    unfolding split_blocks_def n ..
  also have "\<dots> = ?f 0 # map (\<lambda>i. ?f (Suc i)) [0..<?k]"
    unfolding u by (simp only: list.map map_map o_def)
  also have "\<dots> = b # split_blocks rest"
    unfolding f0 fS split_blocks_def ..
  finally show ?thesis .
qed

lemma split_blocks_concat:
  "\<forall>b \<in> set bs. length b = 16 \<Longrightarrow> split_blocks (concat bs) = bs"
  by (induction bs) (simp_all add: split_blocks_Nil split_blocks_append)

lemma split_blocks_ok:
  "length m = 16 * n \<Longrightarrow>
     concat (split_blocks m) = m \<and> length (split_blocks m) = n
     \<and> (\<forall>b \<in> set (split_blocks m). length b = 16)"
proof (induction n arbitrary: m)
  case 0
  then show ?case by (simp add: split_blocks_Nil)
next
  case (Suc n)
  define b where "b = take 16 m"
  define r where "r = drop 16 m"
  have m: "m = b @ r" by (simp add: b_def r_def)
  have lb: "length b = 16" using Suc.prems by (simp add: b_def)
  have lr: "length r = 16 * n" using Suc.prems by (simp add: r_def)
  have sb: "split_blocks m = b # split_blocks r"
    unfolding m by (rule split_blocks_append [OF lb])
  from Suc.IH [OF lr] have "concat (split_blocks r) = r" and "length (split_blocks r) = n"
    and "\<forall>b \<in> set (split_blocks r). length b = 16" by blast+
  then show ?case unfolding sb using lb by (simp add: m)
qed

lemma xor_bytes_cancel:
  "length a = length b \<Longrightarrow> xor_bytes b (xor_bytes a b) = a"
proof (induction a b rule: list_induct2)
  case Nil
  then show ?case by (simp add: xor_bytes_def)
next
  case (Cons x xs y ys)
  then show ?case by (simp add: xor_bytes_def xor.commute xor.left_commute)
qed

lemma encrypt_blocks_ok:
  assumes "wf_aes self"
  shows "\<forall>b \<in> set blocks. length b = 16 \<Longrightarrow> length previous = 16 \<Longrightarrow>
     \<exists>cs. encrypt_blocks self previous blocks = Inr cs \<and> length cs = length blocks
        \<and> (\<forall>c \<in> set cs. length c = 16) \<and> decrypt_blocks self previous cs = Inr blocks"
proof (induction blocks arbitrary: previous)
  case Nil
  then show ?case by simp
next
  case (Cons b blocks)
  have lx: "length (xor_bytes b previous) = 16" using Cons.prems by (simp add: length_xor_bytes)
  from encrypt_block_ok [OF assms lx] obtain c
    where c: "encrypt_block self (xor_bytes b previous) = Inr c" "length c = 16"
      "decrypt_block self c = Inr (xor_bytes b previous)" by blast
  from Cons.IH [of c] Cons.prems c(2) obtain cs
    where cs: "encrypt_blocks self c blocks = Inr cs" "length cs = length blocks"
      "\<forall>c \<in> set cs. length c = 16" "decrypt_blocks self c cs = Inr blocks" by auto
  have "xor_bytes previous (xor_bytes b previous) = b"
    using Cons.prems by (simp add: xor_bytes_cancel)
  with c cs show ?case by simp
qed

lemma encrypt_cbc_ok:
  assumes "wf_aes self" and "length iv = 16"
  shows "\<exists>ct. encrypt_cbc self p iv = Inr ct \<and> length ct = 16 * (length p div 16 + 1)
           \<and> decrypt_cbc self ct iv = Inr p"
proof -
  note s = split_blocks_ok [OF length_pad, of p]
  from encrypt_blocks_ok [OF assms(1), of "split_blocks (pad p)" iv] s assms(2) obtain cs
    where cs: "encrypt_blocks self iv (split_blocks (pad p)) = Inr cs"
      "length cs = length (split_blocks (pad p))" "\<forall>c \<in> set cs. length c = 16"
      "decrypt_blocks self iv cs = Inr (split_blocks (pad p))" by auto
  have e: "encrypt_cbc self p iv = Inr (concat cs)"
    using assms(2) cs(1) by (simp add: encrypt_cbc_def)
  have "length (concat cs) = 16 * length cs"
    using cs(3) by (induction cs) simp_all
  then have l: "length (concat cs) = 16 * (length p div 16 + 1)" using cs(2) s by simp
  have "decrypt_cbc self (concat cs) iv = Inr p"
    using assms(2) cs(3,4) s by (simp add: decrypt_cbc_def split_blocks_concat unpad_pad)
  with e l show ?thesis by blast
qed

section \<open>Keys and plaintexts that pass or fail the validation\<close>

lemma utf8_encode_ascii:
  "list_all (\<lambda>c. c < 128) cs \<Longrightarrow> utf8_encode cs = Some (map of_nat cs)"
  by (induction cs) (simp_all add: encode_char_def)

lemma encode_if_str_ascii:
  assumes "ascii_or_bytes key"
  shows "\<exists>key'. encode_if_str key = Inr key' \<and> py_len key' = py_len key
           \<and> (key' = PyNone) = (key = PyNone)"
  using assms by (cases key) (simp_all add: utf8_encode_ascii)

lemma encodableE: "encodable v \<Longrightarrow> \<exists>v'. encode_if_str v = Inr v'"
  by (cases "encode_if_str v") (simp_all add: encodable_def)

text \<open>
  C7, as the code has it. The length of a key is what \<^verbatim>\<open>len(key)\<close> gives for the key as it is
  passed: the bytes of a byte string, the characters of text. With a non-empty blob,
  \<^verbatim>\<open>decrypt\<close> raises \<^verbatim>\<open>InvalidKeyLength\<close> for a key of length 8, 15, 17 or 33 and
  \<^verbatim>\<open>EncryptDecryptWithoutKey\<close> for a key that is \<^verbatim>\<open>None\<close> or of length 0. \<^verbatim>\<open>encrypt\<close> does the
  same when the key is \<^verbatim>\<open>None\<close>, a byte string or text of ASCII characters only, and the
  plaintext (non-empty for \<^verbatim>\<open>InvalidKeyLength\<close>) is bytes or text that UTF-8 can encode. In
  each case the log of calls is empty: nothing was derived or enciphered, whatever the
  library, the salt and the iteration count.
\<close>

theorem key_validation:
  "(ascii_or_bytes key \<and> py_len key \<in> {8, 15, 17, 33} \<and> truthy plaintext \<and> encodable plaintext
      \<longrightarrow> encrypt lib urandom key plaintext workload = ([], Inl InvalidKeyLength))
   \<and> (py_len key \<in> {8, 15, 17, 33} \<and> truthy blob
      \<longrightarrow> decrypt lib key blob workload = ([], Inl InvalidKeyLength))
   \<and> (ascii_or_bytes key \<and> (key = PyNone \<or> py_len key = 0) \<and> encodable plaintext
      \<longrightarrow> encrypt lib urandom key plaintext workload = ([], Inl EncryptDecryptWithoutKey))
   \<and> (key = PyNone \<or> py_len key = 0
      \<longrightarrow> decrypt lib key blob workload = ([], Inl EncryptDecryptWithoutKey))"
proof (intro conjI impI)
  assume a: "ascii_or_bytes key \<and> py_len key \<in> {8, 15, 17, 33} \<and> truthy plaintext
      \<and> encodable plaintext"
  then obtain key' plaintext' where k: "encode_if_str key = Inr key'" "py_len key' = py_len key"
      "(key' = PyNone) = (key = PyNone)" and p: "encode_if_str plaintext = Inr plaintext'"
    using encode_if_str_ascii [of key] encodableE [of plaintext] by blast
  from a p have "truthy plaintext'" by (auto dest: encode_if_str_truthy)
  moreover from a k have "key' \<noteq> PyNone" by auto
  ultimately have "validate_encryption_inputs key' plaintext' = Inl InvalidKeyLength"
    using a k by (auto simp: validate_encryption_inputs_def)
  with k p show "encrypt lib urandom key plaintext workload = ([], Inl InvalidKeyLength)"
    by (simp add: encrypt_def)
next
  assume "py_len key \<in> {8, 15, 17, 33} \<and> truthy blob"
  then have "validate_decryption_inputs key blob = Inl InvalidKeyLength"
    by (auto simp: validate_decryption_inputs_def)
  then show "decrypt lib key blob workload = ([], Inl InvalidKeyLength)"
    by (simp add: decrypt_def)
next
  assume a: "ascii_or_bytes key \<and> (key = PyNone \<or> py_len key = 0) \<and> encodable plaintext"
  then obtain key' plaintext' where k: "encode_if_str key = Inr key'" "py_len key' = py_len key"
      "(key' = PyNone) = (key = PyNone)" and p: "encode_if_str plaintext = Inr plaintext'"
    using encode_if_str_ascii [of key] encodableE [of plaintext] by blast
  from a k have "validate_encryption_inputs key' plaintext' = Inl EncryptDecryptWithoutKey"
    by (auto simp: validate_encryption_inputs_def)
  with k p show "encrypt lib urandom key plaintext workload = ([], Inl EncryptDecryptWithoutKey)"
    by (simp add: encrypt_def)
next
  assume "key = PyNone \<or> py_len key = 0"
  then have "validate_decryption_inputs key blob = Inl EncryptDecryptWithoutKey"
    by (auto simp: validate_decryption_inputs_def)
  then show "decrypt lib key blob workload = ([], Inl EncryptDecryptWithoutKey)"
    by (simp add: decrypt_def)
qed

theorem key_validation_witness:
  "encrypt stub_lib [] (PyStr (replicate 8 0x41)) (PyStr [0x68, 0x69]) 1
     = ([], Inl InvalidKeyLength)
   \<and> decrypt stub_lib (PyStr (replicate 33 0x41)) (PyBytes (replicate 48 0)) 1
     = ([], Inl InvalidKeyLength)
   \<and> encrypt stub_lib [] (PyStr []) (PyBytes [0x68, 0x69]) 1
     = ([], Inl EncryptDecryptWithoutKey)
   \<and> decrypt stub_lib PyNone (PyBytes (replicate 48 0)) 1
     = ([], Inl EncryptDecryptWithoutKey)"
proof -
  have e: "encodable (PyStr [0x68, 0x69])" "encodable (PyBytes [0x68, 0x69])"
    by (simp_all add: encodable_def encode_char_def)
  have a: "ascii_or_bytes (PyStr (replicate 8 0x41))" "ascii_or_bytes (PyStr [])"
    by (simp_all add: list_all_iff)
  show ?thesis
    using key_validation [of "PyStr (replicate 8 0x41)" "PyStr [0x68, 0x69]" stub_lib "[]" 1
        "PyBytes (replicate 48 0)"]
      key_validation [of "PyStr (replicate 33 0x41)" plaintext stub_lib "[]" 1
        "PyBytes (replicate 48 0)"]
      key_validation [of "PyStr []" "PyBytes [0x68, 0x69]" stub_lib "[]" 1 blob]
      key_validation [of PyNone plaintext stub_lib "[]" 1 "PyBytes (replicate 48 0)"]
      e a
    by simp
qed

lemma utf8_decode_ascii:
  "\<forall>b \<in> set p. b \<le> 127 \<Longrightarrow> utf8_decode p = Some (map unat p)"
proof (induction p)
  case Nil
  then show ?case by simp
next
  case (Cons b p)
  then have "b \<le> 127" by simp
  then have "unat b < 128" by (simp add: word_le_nat_alt)
  with Cons show ?case by simp
qed

lemma validate_encryption_ascii:
  assumes "length k \<in> {16, 24, 32}" and "p \<noteq> []" and "\<forall>b \<in> set p. b \<le> 127"
  shows "validate_encryption_inputs (PyBytes k) (PyBytes p) = Inr ()"
proof -
  have "\<not> list_ex (\<lambda>char. char > 127) (map unat p)"
    using assms(3) by (auto simp: list_ex_iff word_le_nat_alt)
  then show ?thesis using assms
    by (auto simp: validate_encryption_inputs_def utf8_decode_ascii)
qed

section \<open>The runs of the two API functions\<close>

lemma get_key_iv_ok:
  assumes "lib_ok lib" and "kdf_accepts lib workload"
  shows "\<exists>aes_key hmac_key iv. get_key_iv lib password salt workload = Inr (aes_key, hmac_key, iv)
           \<and> length aes_key = 16 \<and> length hmac_key = 16 \<and> length iv = 16"
proof -
  from assms(2) have "pbkdf2_hmac_sha256 lib password salt workload 48 \<noteq> None"
    unfolding kdf_accepts_def by blast
  then obtain stretched
    where s: "pbkdf2_hmac_sha256 lib password salt workload 48 = Some stretched"
    by blast
  with assms(1) have "length stretched = 48" by (auto simp: lib_ok_def)
  with s show ?thesis
    by (simp add: get_key_iv_def AES_KEY_SIZE_def IV_SIZE_def HMAC_KEY_SIZE_def)
qed

lemma get_key_iv_Inr:
  assumes "lib_ok lib" and "get_key_iv lib password salt workload = Inr (aes_key, hmac_key, iv)"
  shows "length aes_key = 16 \<and> length hmac_key = 16 \<and> length iv = 16"
proof -
  from assms(2) obtain stretched
    where s: "pbkdf2_hmac_sha256 lib password salt workload 48 = Some stretched"
    by (auto simp: get_key_iv_def AES_KEY_SIZE_def IV_SIZE_def HMAC_KEY_SIZE_def
        split: option.splits)
  with assms(1) have "length stretched = 48" by (auto simp: lib_ok_def)
  with s assms(2) show ?thesis
    by (auto simp: get_key_iv_def AES_KEY_SIZE_def IV_SIZE_def HMAC_KEY_SIZE_def)
qed

text \<open>The run of \<^verbatim>\<open>encrypt\<close> on arguments that pass the validation.\<close>

lemma encrypt_ok:
  assumes "lib_ok lib" and "kdf_accepts lib workload"
    and "encode_if_str key = Inr (PyBytes k)" and "encode_if_str plaintext = Inr (PyBytes p)"
    and "validate_encryption_inputs (PyBytes k) (PyBytes p) = Inr ()"
  shows "\<exists>aes_key hmac_key iv cipher ct.
           get_key_iv lib k salt workload = Inr (aes_key, hmac_key, iv)
           \<and> length aes_key = 16 \<and> length iv = 16
           \<and> AES_init aes_key = Inr cipher \<and> wf_aes cipher \<and> n_rounds cipher = 10
           \<and> encrypt_cbc cipher p iv = Inr ct
           \<and> length ct = 16 * (length p div 16 + 1)
           \<and> decrypt_cbc cipher ct iv = Inr p
           \<and> encrypt lib salt key plaintext workload =
               ([Urandom 16, Pbkdf2 k (PyBytes salt) workload 48, NewAES aes_key,
                 EncryptCBC p iv, NewHmac hmac_key (salt @ ct)],
                Inr (hmac_sha256_digest lib hmac_key (salt @ ct) @ salt @ ct))"
proof -
  from get_key_iv_ok [OF assms(1,2)] obtain aes_key hmac_key iv
    where g: "get_key_iv lib k salt workload = Inr (aes_key, hmac_key, iv)"
      and l: "length aes_key = 16" "length iv = 16" by blast
  from AES_init_16 [OF l(1)] obtain cipher
    where c: "AES_init aes_key = Inr cipher" "wf_aes cipher" "n_rounds cipher = 10" by blast
  from encrypt_cbc_ok [OF c(2) l(2)] obtain ct
    where e: "encrypt_cbc cipher p iv = Inr ct" "length ct = 16 * (length p div 16 + 1)"
      "decrypt_cbc cipher ct iv = Inr p" by blast
  have h: "length (hmac_sha256_digest lib hmac_key (salt @ ct)) = 32"
    using assms(1) by (simp add: lib_ok_def)
  have "encrypt lib salt key plaintext workload =
               ([Urandom 16, Pbkdf2 k (PyBytes salt) workload 48, NewAES aes_key,
                 EncryptCBC p iv, NewHmac hmac_key (salt @ ct)],
                Inr (hmac_sha256_digest lib hmac_key (salt @ ct) @ salt @ ct))"
    using assms(3,4,5) g c(1) e(1) h
    by (simp add: encrypt_def Let_def SALT_SIZE_def AES_KEY_SIZE_def IV_SIZE_def
        HMAC_KEY_SIZE_def HMAC_SIZE_def)
  with g l c e show ?thesis by blast
qed

text \<open>The run of \<^verbatim>\<open>decrypt\<close> on a blob made of a tag, a salt and a ciphertext.\<close>

lemma decrypt_blob:
  assumes "key \<noteq> PyNone" and "py_len key \<in> {16, 24, 32}"
    and "encode_if_str key = Inr (PyBytes k)"
    and "length tag = 32" and "length salt = 16" and "length ct mod 16 = 0"
    and "get_key_iv lib k salt workload = Inr (aes_key, hmac_key, iv)"
  shows "decrypt lib key (PyBytes (tag @ salt @ ct)) workload =
      (if tag \<noteq> hmac_sha256_digest lib hmac_key (salt @ ct)
       then ([Pbkdf2 k (PyBytes salt) workload 48, NewHmac hmac_key (salt @ ct)],
             Inl (AssertionError tampered_msg))
       else (case AES_init aes_key of
               Inl e \<Rightarrow> ([Pbkdf2 k (PyBytes salt) workload 48, NewHmac hmac_key (salt @ ct),
                          NewAES aes_key], Inl e)
             | Inr cipher \<Rightarrow>
                 ([Pbkdf2 k (PyBytes salt) workload 48, NewHmac hmac_key (salt @ ct),
                   NewAES aes_key, DecryptCBC ct iv], decrypt_cbc cipher ct iv)))"
proof -
  have v: "validate_decryption_inputs key (PyBytes (tag @ salt @ ct)) = Inr ()"
    using assms(1,2,4) by (auto simp: validate_decryption_inputs_def)
  have m: "(length tag + (length salt + length ct)) mod 16 = 0"
    using assms(4,5,6) by (simp add: mod_add_eq [symmetric])
  show ?thesis
    using assms(3,4,5,7) v m
    by (simp add: decrypt_def Let_def SALT_SIZE_def AES_KEY_SIZE_def IV_SIZE_def
        HMAC_KEY_SIZE_def HMAC_SIZE_def split: sum.splits)
qed








text \<open>
  The claim as it is written fails in \<^verbatim>\<open>encrypt\<close>, which encodes text before it validates.
  A text key of 8 characters that UTF-8 encodes to 16 bytes is accepted, and a blob is
  returned. A plaintext that UTF-8 cannot encode raises \<^verbatim>\<open>UnicodeEncodeError\<close> before the
  key of 8 bytes is looked at.
\<close>

theorem key_validation_counterexample:
  "py_len (PyStr [0xE9, 0xE9, 0xE9, 0xE9, 0xE9, 0xE9, 0xE9, 0xE9]) = 8
   \<and> truthy (PyBytes [0x68, 0x69])
   \<and> returned (snd (encrypt stub_lib (replicate 16 7)
         (PyStr [0xE9, 0xE9, 0xE9, 0xE9, 0xE9, 0xE9, 0xE9, 0xE9]) (PyBytes [0x68, 0x69]) 1))
   \<and> snd (encrypt stub_lib (replicate 16 7)
         (PyStr [0xE9, 0xE9, 0xE9, 0xE9, 0xE9, 0xE9, 0xE9, 0xE9]) (PyBytes [0x68, 0x69]) 1)
       \<noteq> Inl InvalidKeyLength
   \<and> encrypt stub_lib (replicate 16 7) (PyBytes [1, 2, 3, 4, 5, 6, 7, 8]) (PyStr [0xD800]) 1
       = ([], Inl UnicodeEncodeError)"
proof -
  have l: "lib_ok stub_lib" by (simp add: lib_ok_def stub_lib_def)
  have a: "kdf_accepts stub_lib 1" by (simp add: kdf_accepts_def stub_lib_def)
  have k: "encode_if_str (PyStr [0xE9, 0xE9, 0xE9, 0xE9, 0xE9, 0xE9, 0xE9, 0xE9])
      = Inr (PyBytes [0xC3, 0xA9, 0xC3, 0xA9, 0xC3, 0xA9, 0xC3, 0xA9,
                      0xC3, 0xA9, 0xC3, 0xA9, 0xC3, 0xA9, 0xC3, 0xA9])"
    by (simp add: encode_char_def)
  have p: "encode_if_str (PyBytes [0x68, 0x69]) = Inr (PyBytes [0x68, 0x69])" by simp
  have v: "validate_encryption_inputs
      (PyBytes [0xC3, 0xA9, 0xC3, 0xA9, 0xC3, 0xA9, 0xC3, 0xA9,
                0xC3, 0xA9, 0xC3, 0xA9, 0xC3, 0xA9, 0xC3, 0xA9])
      (PyBytes [0x68, 0x69]) = Inr ()"
    by (rule validate_encryption_ascii) simp_all
  from encrypt_ok [OF l a k p v, of "replicate 16 7"]
  have "returned (snd (encrypt stub_lib (replicate 16 7)
         (PyStr [0xE9, 0xE9, 0xE9, 0xE9, 0xE9, 0xE9, 0xE9, 0xE9]) (PyBytes [0x68, 0x69]) 1))"
    by auto
  moreover have "encrypt stub_lib (replicate 16 7) (PyBytes [1, 2, 3, 4, 5, 6, 7, 8])
      (PyStr [0xD800]) 1 = ([], Inl UnicodeEncodeError)"
    by (simp add: encrypt_def encode_char_def)
  ultimately show ?thesis by auto
qed

section \<open>The blob, the cipher key and text arguments\<close>

lemma encrypt_NewAES:
  assumes "NewAES a \<in> set (fst (encrypt lib salt key plaintext workload))"
  shows "\<exists>k hmac_key iv. get_key_iv lib k salt workload = Inr (a, hmac_key, iv)"
  using assms unfolding encrypt_def Let_def
  by (auto split: sum.splits pyval.splits prod.splits if_splits)

lemma decrypt_NewAES:
  assumes "NewAES a \<in> set (fst (decrypt lib key blob workload))"
  shows "\<exists>k salt hmac_key iv. get_key_iv lib k salt workload = Inr (a, hmac_key, iv)"
  using assms unfolding decrypt_def Let_def
  by (auto split: sum.splits pyval.splits prod.splits if_splits)






text \<open>
  C10. Whatever the arguments of \<^verbatim>\<open>encrypt\<close> or \<^verbatim>\<open>decrypt\<close>, and so whatever the length of
  the master key, a key handed to the constructor of the cipher is the first 16 bytes of
  the 48 bytes the key derivation returned. With it the constructor succeeds, the round
  count read from \<^verbatim>\<open>rounds_by_key_size\<close> is the one for 16 bytes, 10, and there are 11 round
  keys: the entries for 24 and 32 bytes and the branch of the key schedule for a 32-byte
  key are not used. And \<^verbatim>\<open>encrypt\<close> with a master key of 16, 24 or 32 bytes and an ASCII
  plaintext does construct the cipher, with such a key.
\<close>

theorem cipher_key_is_derived:
  assumes "lib_ok lib"
  shows "(NewAES a \<in> set (fst (encrypt lib salt key plaintext workload))
            \<or> NewAES a \<in> set (fst (decrypt lib key' blob workload'))
          \<longrightarrow> length a = 16
              \<and> (\<exists>password s w stretched.
                    pbkdf2_hmac_sha256 lib password s w 48 = Some stretched
                    \<and> a = take 16 stretched)
              \<and> rounds_by_key_size (length a) = Some 10
              \<and> (\<exists>cipher. AES_init a = Inr cipher \<and> n_rounds cipher = 10
                    \<and> length (key_matrices cipher) = 11))
       \<and> (kdf_accepts lib workload \<and> length k \<in> {16, 24, 32} \<and> p \<noteq> []
            \<and> (\<forall>b \<in> set p. b \<le> 127)
          \<longrightarrow> (\<exists>a' cipher.
                 NewAES a' \<in> set (fst (encrypt lib salt (PyBytes k) (PyBytes p) workload))
                 \<and> length a' = 16 \<and> AES_init a' = Inr cipher \<and> n_rounds cipher = 10))"
    (is "(?P1 \<longrightarrow> ?Q1) \<and> (?P2 \<longrightarrow> ?Q2)")
proof (rule conjI; rule impI)
  assume n: "NewAES a \<in> set (fst (encrypt lib salt key plaintext workload))
         \<or> NewAES a \<in> set (fst (decrypt lib key' blob workload'))"
  then obtain k s w hmac_key iv
    where g: "get_key_iv lib k s w = Inr (a, hmac_key, iv)"
    using encrypt_NewAES [of a lib salt key plaintext workload]
      decrypt_NewAES [of a lib key' blob workload'] by blast
  from get_key_iv_Inr [OF assms g] have l: "length a = 16" by simp
  from g have d: "\<exists>password s w stretched.
      pbkdf2_hmac_sha256 lib password s w 48 = Some stretched \<and> a = take 16 stretched"
    by (auto simp: get_key_iv_def AES_KEY_SIZE_def IV_SIZE_def HMAC_KEY_SIZE_def Let_def
        split: option.splits)
  from AES_init_16 [OF l] obtain cipher
    where c: "AES_init a = Inr cipher" "wf_aes cipher" "n_rounds cipher = 10" by blast
  then have "length (key_matrices cipher) = 11" by (simp add: wf_aes_def)
  with l d c show ?Q1
    by (auto simp: rounds_by_key_size_def)
next
  assume h: "kdf_accepts lib workload \<and> length k \<in> {16, 24, 32} \<and> p \<noteq> []
            \<and> (\<forall>b \<in> set p. b \<le> 127)"
  then have v: "validate_encryption_inputs (PyBytes k) (PyBytes p) = Inr ()"
    by (intro validate_encryption_ascii) simp_all
  from h have ka: "kdf_accepts lib workload" by simp
  from encrypt_ok [OF assms ka _ _ v, of "PyBytes k" "PyBytes p" salt]
  obtain aes_key hmac_key iv cipher ct
    where "length aes_key = 16" "AES_init aes_key = Inr cipher" "n_rounds cipher = 10"
      and "encrypt lib salt (PyBytes k) (PyBytes p) workload =
               ([Urandom 16, Pbkdf2 k (PyBytes salt) workload 48, NewAES aes_key,
                 EncryptCBC p iv, NewHmac hmac_key (salt @ ct)],
                Inr (hmac_sha256_digest lib hmac_key (salt @ ct) @ salt @ ct))"
    by auto
  then show ?Q2
    by auto
qed

theorem cipher_key_is_derived_witness:
  "NewAES (replicate 16 0)
     \<in> set (fst (encrypt stub_lib (replicate 16 7) (PyBytes (replicate 32 0x41))
                   (PyBytes [0x68, 0x69]) 1))
   \<and> length (replicate 16 (0 :: byte)) = 16
   \<and> (\<exists>cipher. AES_init (replicate 16 0) = Inr cipher \<and> n_rounds cipher = 10
          \<and> length (key_matrices cipher) = 11)"
proof -
  have l: "lib_ok stub_lib" by (simp add: lib_ok_def stub_lib_def)
  have a: "kdf_accepts stub_lib 1" by (simp add: kdf_accepts_def stub_lib_def)
  note t = cipher_key_is_derived [OF l, of _ "replicate 16 7"
      "PyBytes (replicate 32 0x41)" "PyBytes [0x68, 0x69]" 1 PyNone PyNone 1
      "replicate 32 0x41" "[0x68, 0x69]"]
  from t [of "replicate 16 0"] a obtain a'
    where m: "NewAES a' \<in> set (fst (encrypt stub_lib (replicate 16 7)
        (PyBytes (replicate 32 0x41)) (PyBytes [0x68, 0x69]) 1))" by auto
  have g: "get_key_iv stub_lib k' s' w' = Inr (x, y, z) \<Longrightarrow> x = replicate 16 0" for k' s' w' x y z
    by (auto simp: get_key_iv_def stub_lib_def AES_KEY_SIZE_def IV_SIZE_def HMAC_KEY_SIZE_def
        split: if_splits)
  from m encrypt_NewAES [of a' stub_lib] g have "a' = replicate 16 0" by blast
  with m t [of "replicate 16 0"] show ?thesis by simp
qed








section \<open>Known answers\<close>

text \<open>The let-free form of one pass of the key schedule, for evaluation.\<close>

lemma schedule_core_flat:
  "schedule_core (b # bs) i =
     (if i < length r_con
      then Inr ((map (\<lambda>b. s_box ! unat b) (bs @ [b]))
                  [0 := map (\<lambda>b. s_box ! unat b) (bs @ [b]) ! 0 XOR r_con ! i])
      else Inl IndexError)"
  by (simp add: schedule_core_def Let_def)

lemmas aes_eval =
  AES_init_def rounds_by_key_size_def expand_key_def bytes2matrix_def
  expand_step_def schedule_core_flat xor_bytes_def
  encrypt_block_flat decrypt_block_flat encrypt_round_def decrypt_round_def
  add_round_key_def sub_bytes_def inv_sub_bytes_def shift_rows_def inv_shift_rows_def
  mix_columns_def inv_mix_columns_def gf_mat_vec_def mix_matrix_def inv_mix_matrix_def
  gf_mul_consts xtime_def matrix2bytes_def upt_conv_Cons

lemma kat_128:
  "(case AES_init kat_key_128 of
      Inl e \<Rightarrow> False
    | Inr cipher \<Rightarrow> encrypt_block cipher kat_plaintext = Inr kat_ciphertext_128
        \<and> decrypt_block cipher kat_ciphertext_128 = Inr kat_plaintext)"
  by (simp add: kat_key_128_def kat_plaintext_def kat_ciphertext_128_def aes_eval
      s_box_def inv_s_box_def r_con_def del: upt_Suc)

lemma kat_192:
  "(case AES_init kat_key_192 of
      Inl e \<Rightarrow> False
    | Inr cipher \<Rightarrow> encrypt_block cipher kat_plaintext = Inr kat_ciphertext_192
        \<and> decrypt_block cipher kat_ciphertext_192 = Inr kat_plaintext)"
  by (simp add: kat_key_192_def kat_plaintext_def kat_ciphertext_192_def aes_eval
      s_box_def inv_s_box_def r_con_def del: upt_Suc)

lemma kat_256:
  "(case AES_init kat_key_256 of
      Inl e \<Rightarrow> False
    | Inr cipher \<Rightarrow> encrypt_block cipher kat_plaintext = Inr kat_ciphertext_256
        \<and> decrypt_block cipher kat_ciphertext_256 = Inr kat_plaintext)"
  by (simp add: kat_key_256_def kat_plaintext_def kat_ciphertext_256_def aes_eval
      s_box_def inv_s_box_def r_con_def del: upt_Suc)

text \<open>
  C2. With the keys of 128, 192 and 256 bits of the example vectors of the published
  standard (the bytes \<open>00 01 02 ...\<close>), \<^verbatim>\<open>encrypt_block\<close> maps the block
  \<open>00 11 22 ... FF\<close> to the ciphertext block the standard lists for that key, and
  \<^verbatim>\<open>decrypt_block\<close> maps that block back: one block, no chaining.
\<close>

theorem known_answer_vectors:
  "(\<exists>cipher. AES_init kat_key_128 = Inr cipher \<and> n_rounds cipher = 10
      \<and> encrypt_block cipher kat_plaintext = Inr kat_ciphertext_128
      \<and> decrypt_block cipher kat_ciphertext_128 = Inr kat_plaintext)
   \<and> (\<exists>cipher. AES_init kat_key_192 = Inr cipher \<and> n_rounds cipher = 12
      \<and> encrypt_block cipher kat_plaintext = Inr kat_ciphertext_192
      \<and> decrypt_block cipher kat_ciphertext_192 = Inr kat_plaintext)
   \<and> (\<exists>cipher. AES_init kat_key_256 = Inr cipher \<and> n_rounds cipher = 14
      \<and> encrypt_block cipher kat_plaintext = Inr kat_ciphertext_256
      \<and> decrypt_block cipher kat_ciphertext_256 = Inr kat_plaintext)"
proof -
  have r: "rounds_by_key_size (length kat_key_128) = Some 10"
    "rounds_by_key_size (length kat_key_192) = Some 12"
    "rounds_by_key_size (length kat_key_256) = Some 14"
    by (simp_all add: rounds_by_key_size_def kat_key_128_def kat_key_192_def kat_key_256_def)
  show ?thesis
    using kat_128 kat_192 kat_256 r
      AES_init_Inr [of kat_key_128] AES_init_Inr [of kat_key_192] AES_init_Inr [of kat_key_256]
    by (auto split: sum.splits)
qed

end
